theory Spec2Isabelle
  imports Main "HOL-Library.Word"
begin

section \<open>Characters and the regular expressions of the word extractor\<close>

text \<open>
  A text is a list of code units. The model covers the code units below 256 (ASCII and
  Latin-1), on which the classes \<open>\w\<close>, \<open>\s\<close>, \<open>\S\<close>, \<open>\d\<close> and
  \<open>toLowerCase\<close> of the JavaScript runtime are written out below.
\<close>

definition code :: "char \<Rightarrow> nat" where
  "code c = of_char c"

definition isDigit :: "char \<Rightarrow> bool" where
  "isDigit c = (48 \<le> code c \<and> code c \<le> 57)"

definition isUpper :: "char \<Rightarrow> bool" where
  "isUpper c = (65 \<le> code c \<and> code c \<le> 90)"

definition isLower :: "char \<Rightarrow> bool" where
  "isLower c = (97 \<le> code c \<and> code c \<le> 122)"

text \<open>The class \<open>\w\<close>: ASCII letters, digits and the underscore.\<close>

definition isWordChar :: "char \<Rightarrow> bool" where
  "isWordChar c = (isDigit c \<or> isUpper c \<or> isLower c \<or> code c = 95)"

text \<open>The class \<open>\s\<close> below 256: tab, line feed, vertical tab, form feed, carriage
  return, space and the no-break space.\<close>

definition isSpace :: "char \<Rightarrow> bool" where
  "isSpace c = ((9 \<le> code c \<and> code c \<le> 13) \<or> code c = 32 \<or> code c = 160)"

text \<open>\<open>toLowerCase\<close> on one code unit: A to Z, and the Latin-1 capitals
  (192 to 222 without the multiplication sign 215), move up by 32.\<close>

definition lowerChar :: "char \<Rightarrow> char" where
  "lowerChar c =
     (if isUpper c \<or> (192 \<le> code c \<and> code c \<le> 222 \<and> code c \<noteq> 215)
      then char_of (code c + 32) else c)"

definition toLowerCase :: "string \<Rightarrow> string" where
  "toLowerCase s = map lowerChar s"

text \<open>A matcher tries a pattern at the start of a text and returns what follows the
  match. \<open>matchLit\<close> matches a literal, \<open>matchLitCI\<close> a literal under the \<open>i\<close> flag
  (the pattern is given in lower case).\<close>

fun matchLit :: "string \<Rightarrow> string \<Rightarrow> string option" where
  "matchLit [] s = Some s"
| "matchLit (p # ps) [] = None"
| "matchLit (p # ps) (c # cs) = (if c = p then matchLit ps cs else None)"

fun matchLitCI :: "string \<Rightarrow> string \<Rightarrow> string option" where
  "matchLitCI [] s = Some s"
| "matchLitCI (p # ps) [] = None"
| "matchLitCI (p # ps) (c # cs) =
     (if c = p \<or> (isUpper c \<and> lowerChar c = p) then matchLitCI ps cs else None)"

text \<open>The tail \<open>:\/\/\S+\<close> of the URL pattern: the literal, then a longest nonempty
  run of non-whitespace.\<close>

definition urlTail :: "string \<Rightarrow> string option" where
  "urlTail s =
     (case matchLit ''://'' s of
        None \<Rightarrow> None
      | Some [] \<Rightarrow> None
      | Some (c # cs) \<Rightarrow>
          if isSpace c then None else Some (dropWhile (\<lambda>x. \<not> isSpace x) cs))"

text \<open>The pattern \<open>/https?:\/\/\S+/i\<close> at the start of a text: \<open>s?\<close> first takes
  the \<open>s\<close> and gives it back when the rest fails.\<close>

definition matchUrl :: "string \<Rightarrow> string option" where
  "matchUrl s =
     (case matchLitCI ''http'' s of
        None \<Rightarrow> None
      | Some r \<Rightarrow>
          (case matchLitCI ''s'' r of
             None \<Rightarrow> urlTail r
           | Some r' \<Rightarrow> (case urlTail r' of Some t \<Rightarrow> Some t | None \<Rightarrow> urlTail r)))"

text \<open>The pattern \<open>/@[\w.]+/\<close> at the start of a text.\<close>

definition isHandleChar :: "char \<Rightarrow> bool" where
  "isHandleChar c = (isWordChar c \<or> c = CHR ''.'')"

definition matchMention :: "string \<Rightarrow> string option" where
  "matchMention s =
     (case s of
        c # d # ds \<Rightarrow>
          if c = CHR ''@'' \<and> isHandleChar d then Some (dropWhile isHandleChar ds) else None
      | _ \<Rightarrow> None)"

text \<open>\<open>text.replace(/pattern/g, "")\<close>: scan from the left; where the pattern matches a
  nonempty piece, drop it and go on behind it; elsewhere keep the code unit.\<close>

function removeMatches :: "(string \<Rightarrow> string option) \<Rightarrow> string \<Rightarrow> string" where
  "removeMatches m [] = []"
| "removeMatches m (c # cs) =
     (case m (c # cs) of
        None \<Rightarrow> c # removeMatches m cs
      | Some r \<Rightarrow>
          if length r < length (c # cs) then removeMatches m r
          else c # removeMatches m cs)"
  by pat_completeness auto
termination
  by (relation "measure (\<lambda>(m, s). length s)") auto

text \<open>\<open>replace(/[^\w\s#]/g, " ")\<close> on one code unit.\<close>

definition keepChar :: "char \<Rightarrow> char" where
  "keepChar c = (if isWordChar c \<or> isSpace c \<or> c = CHR ''#'' then c else CHR '' '')"

text \<open>\<open>split(/\s+/)\<close>: the pieces between the longest runs of whitespace; a text that
  starts or ends with whitespace has an empty first or last piece, and the empty text
  gives one empty piece.\<close>

function splitWs :: "string \<Rightarrow> string list" where
  "splitWs s =
     (let tok = takeWhile (\<lambda>x. \<not> isSpace x) s;
          rest = dropWhile (\<lambda>x. \<not> isSpace x) s
      in if rest = [] then [tok] else tok # splitWs (dropWhile isSpace rest))"
  by pat_completeness auto
termination
proof (relation "measure length", goal_cases)
  case 1
  show ?case by simp
next
  case (2 s tok rest)
  then have ne: "dropWhile (\<lambda>x. \<not> isSpace x) s \<noteq> []"
    by simp
  then obtain c cs where rest: "dropWhile (\<lambda>x. \<not> isSpace x) s = c # cs"
    by (cases "dropWhile (\<lambda>x. \<not> isSpace x) s") auto
  have "isSpace c"
    using hd_dropWhile [OF ne] rest by simp
  then have "length (dropWhile isSpace (c # cs)) \<le> length cs"
    by (simp add: length_dropWhile_le)
  moreover have "length (c # cs) \<le> length s"
    using length_dropWhile_le [of "\<lambda>x. \<not> isSpace x" s] rest by simp
  ultimately show ?case
    using rest 2 by simp
qed

declare splitWs.simps [simp del]

text \<open>\<open>word.replace(/^#+/, "")\<close>.\<close>

definition stripHashes :: "string \<Rightarrow> string" where
  "stripHashes w = dropWhile (\<lambda>c. c = CHR ''#'') w"

text \<open>\<open>/^\d+$/.test(word)\<close>.\<close>

definition isNumeric :: "string \<Rightarrow> bool" where
  "isNumeric w = (w \<noteq> [] \<and> list_all isDigit w)"

section \<open>The word extractor\<close>

definition STOP_WORDS :: "string list" where
  "STOP_WORDS =
    [''a'', ''an'', ''the'', ''and'', ''or'', ''but'', ''nor'', ''so'', ''yet'', ''in'',
     ''on'', ''at'', ''to'', ''for'', ''of'', ''with'', ''by'', ''from'', ''up'', ''down'',
     ''out'', ''off'', ''over'', ''under'', ''into'', ''through'', ''about'', ''between'',
     ''after'', ''before'', ''is'', ''are'', ''was'', ''were'', ''be'', ''been'', ''being'',
     ''have'', ''has'', ''had'', ''do'', ''does'', ''did'', ''will'', ''would'', ''could'',
     ''should'', ''may'', ''might'', ''must'', ''can'', ''get'', ''got'', ''go'', ''going'',
     ''went'', ''come'', ''came'', ''make'', ''made'', ''take'', ''took'', ''i'', ''me'',
     ''my'', ''mine'', ''myself'', ''you'', ''your'', ''yours'', ''yourself'', ''he'',
     ''him'', ''his'', ''himself'', ''she'', ''her'', ''hers'', ''herself'', ''it'', ''its'',
     ''itself'', ''we'', ''us'', ''our'', ''ours'', ''ourselves'', ''they'', ''them'',
     ''their'', ''theirs'', ''themselves'', ''this'', ''that'', ''these'', ''those'',
     ''what'', ''which'', ''who'', ''whom'', ''whose'', ''when'', ''where'', ''why'', ''how'',
     ''if'', ''then'', ''else'', ''than'', ''as'', ''just'', ''also'', ''only'', ''even'',
     ''more'', ''most'', ''less'', ''very'', ''too'', ''all'', ''any'', ''some'', ''no'',
     ''not'', ''yes'', ''now'', ''here'', ''there'', ''still'', ''well'', ''back'', ''way'',
     ''like'', ''know'', ''think'', ''see'', ''want'', ''say'', ''said'', ''really'',
     ''much'', ''one'', ''two'', ''new'', ''good'', ''first'', ''last'', ''been'', ''being'',
     ''https'', ''http'', ''www'', ''com'']"

definition isStopWord :: "string \<Rightarrow> bool" where
  "isStopWord w = (w \<in> set STOP_WORDS)"

definition MIN_WORD_LENGTH :: nat where
  "MIN_WORD_LENGTH = 3"

definition withoutUrls :: "string \<Rightarrow> string" where
  "withoutUrls text = removeMatches matchUrl text"

definition withoutMentions :: "string \<Rightarrow> string" where
  "withoutMentions text = removeMatches matchMention (withoutUrls text)"

definition rawTokens :: "string \<Rightarrow> string list" where
  "rawTokens text =
     map stripHashes (splitWs (map keepChar (toLowerCase (withoutMentions text))))"

definition extractWords :: "string \<Rightarrow> string list" where
  "extractWords text =
     filter (\<lambda>word. \<not> isNumeric word)
       (filter (\<lambda>word. \<not> isStopWord word)
          (filter (\<lambda>word. MIN_WORD_LENGTH \<le> length word) (rawTokens text)))"

section \<open>Dates and the 10-second interval\<close>

text \<open>
  A \<open>Date\<close> of the runtime holds a time value, the milliseconds since the epoch, or
  is invalid. The functions below are those of the language standard for time values.
  The zone is a parameter \<open>tza\<close>: the offset of local time in milliseconds, at a time
  value read as UTC (flag true) or as local time (flag false).
\<close>

datatype date = Date int | InvalidDate

definition LocalTime :: "(int \<Rightarrow> bool \<Rightarrow> int) \<Rightarrow> int \<Rightarrow> int" where
  "LocalTime tza t = t + tza t True"

definition UTC :: "(int \<Rightarrow> bool \<Rightarrow> int) \<Rightarrow> int \<Rightarrow> int" where
  "UTC tza t = t - tza t False"

definition utcZone :: "int \<Rightarrow> bool \<Rightarrow> int" where
  "utcZone t isUTC = 0"

definition Day :: "int \<Rightarrow> int" where
  "Day t = t div 86400000"

definition DaysInYear :: "int \<Rightarrow> int" where
  "DaysInYear y =
     (if y mod 4 \<noteq> 0 then 365 else if y mod 100 \<noteq> 0 then 366
      else if y mod 400 \<noteq> 0 then 365 else 366)"

definition DayFromYear :: "int \<Rightarrow> int" where
  "DayFromYear y =
     365 * (y - 1970) + (y - 1969) div 4 - (y - 1901) div 100 + (y - 1601) div 400"

text \<open>\<open>YearFromTime\<close> is the largest year that starts at or before the time value. A
  year has 365 or 366 days, so that year lies between the two estimates below; the
  search walks down from the upper one.\<close>

fun yearDown :: "nat \<Rightarrow> int \<Rightarrow> int \<Rightarrow> int" where
  "yearDown 0 y d = y"
| "yearDown (Suc n) y d = (if DayFromYear y \<le> d then y else yearDown n (y - 1) d)"

definition YearFromTime :: "int \<Rightarrow> int" where
  "YearFromTime t =
     (let d = Day t;
          lo = 1970 + min (d div 365) (d div 366);
          hi = 1970 + max (d div 365) (d div 366)
      in yearDown (nat (hi - lo)) hi d)"

definition InLeapYear :: "int \<Rightarrow> int" where
  "InLeapYear t = (if DaysInYear (YearFromTime t) = 366 then 1 else 0)"

definition DayWithinYear :: "int \<Rightarrow> int" where
  "DayWithinYear t = Day t - DayFromYear (YearFromTime t)"

definition MonthFromTime :: "int \<Rightarrow> int" where
  "MonthFromTime t =
     (let d = DayWithinYear t; l = InLeapYear t
      in if d < 31 then 0 else if d < 59 + l then 1 else if d < 90 + l then 2
         else if d < 120 + l then 3 else if d < 151 + l then 4 else if d < 181 + l then 5
         else if d < 212 + l then 6 else if d < 243 + l then 7 else if d < 273 + l then 8
         else if d < 304 + l then 9 else if d < 334 + l then 10 else 11)"

definition DateFromTime :: "int \<Rightarrow> int" where
  "DateFromTime t =
     (let d = DayWithinYear t; l = InLeapYear t; m = MonthFromTime t
      in if m = 0 then d + 1 else if m = 1 then d - 30 else if m = 2 then d - 58 - l
         else if m = 3 then d - 89 - l else if m = 4 then d - 119 - l
         else if m = 5 then d - 150 - l else if m = 6 then d - 180 - l
         else if m = 7 then d - 211 - l else if m = 8 then d - 242 - l
         else if m = 9 then d - 272 - l else if m = 10 then d - 303 - l
         else d - 333 - l)"

definition HourFromTime :: "int \<Rightarrow> int" where
  "HourFromTime t = (t div 3600000) mod 24"

definition MinFromTime :: "int \<Rightarrow> int" where
  "MinFromTime t = (t div 60000) mod 60"

definition SecFromTime :: "int \<Rightarrow> int" where
  "SecFromTime t = (t div 1000) mod 60"

definition MakeTime :: "int \<Rightarrow> int \<Rightarrow> int \<Rightarrow> int \<Rightarrow> int" where
  "MakeTime h m s ms = h * 3600000 + m * 60000 + s * 1000 + ms"

text \<open>\<open>MakeDay\<close>: the day number of the first of the month, plus the date less one.\<close>

definition monthStart :: "int \<Rightarrow> int \<Rightarrow> int" where
  "monthStart mn l =
     (if mn = 0 then 0 else if mn = 1 then 31 else if mn = 2 then 59 + l
      else if mn = 3 then 90 + l else if mn = 4 then 120 + l else if mn = 5 then 151 + l
      else if mn = 6 then 181 + l else if mn = 7 then 212 + l else if mn = 8 then 243 + l
      else if mn = 9 then 273 + l else if mn = 10 then 304 + l else 334 + l)"

definition MakeDay :: "int \<Rightarrow> int \<Rightarrow> int \<Rightarrow> int" where
  "MakeDay year month dt =
     (let ym = year + month div 12;
          mn = month mod 12
      in DayFromYear ym + monthStart mn (if DaysInYear ym = 366 then 1 else 0) + dt - 1)"

definition MakeDate :: "int \<Rightarrow> int \<Rightarrow> int" where
  "MakeDate day time = day * 86400000 + time"

text \<open>\<open>TimeClip\<close>: a time value out of the range of a \<open>Date\<close> gives an invalid date.\<close>

definition TimeClip :: "int \<Rightarrow> date" where
  "TimeClip t = (if 8640000000000000 < \<bar>t\<bar> then InvalidDate else Date t)"

text \<open>\<open>new Date(year, month, date, hours, minutes, seconds, ms)\<close> in local time. The
  constructor reads a year from 0 to 99 as a year of the twentieth century.\<close>

definition newDate ::
  "(int \<Rightarrow> bool \<Rightarrow> int) \<Rightarrow> int \<Rightarrow> int \<Rightarrow> int \<Rightarrow> int \<Rightarrow> int \<Rightarrow> int \<Rightarrow> int \<Rightarrow> date" where
  "newDate tza year month dt hours minutes seconds ms =
     (let yr = (if 0 \<le> year \<and> year \<le> 99 then 1900 + year else year);
          finalDate = MakeDate (MakeDay yr month dt) (MakeTime hours minutes seconds ms)
      in TimeClip (UTC tza finalDate))"

text \<open>The getters of a valid date, in local time.\<close>

definition getFullYear :: "(int \<Rightarrow> bool \<Rightarrow> int) \<Rightarrow> int \<Rightarrow> int" where
  "getFullYear tza t = YearFromTime (LocalTime tza t)"

definition getMonth :: "(int \<Rightarrow> bool \<Rightarrow> int) \<Rightarrow> int \<Rightarrow> int" where
  "getMonth tza t = MonthFromTime (LocalTime tza t)"

definition getDate :: "(int \<Rightarrow> bool \<Rightarrow> int) \<Rightarrow> int \<Rightarrow> int" where
  "getDate tza t = DateFromTime (LocalTime tza t)"

definition getHours :: "(int \<Rightarrow> bool \<Rightarrow> int) \<Rightarrow> int \<Rightarrow> int" where
  "getHours tza t = HourFromTime (LocalTime tza t)"

definition getMinutes :: "(int \<Rightarrow> bool \<Rightarrow> int) \<Rightarrow> int \<Rightarrow> int" where
  "getMinutes tza t = MinFromTime (LocalTime tza t)"

definition getSeconds :: "(int \<Rightarrow> bool \<Rightarrow> int) \<Rightarrow> int \<Rightarrow> int" where
  "getSeconds tza t = SecFromTime (LocalTime tza t)"

text \<open>On an invalid date every getter is NaN, and the constructor gives an invalid
  date again.\<close>

fun truncateToInterval :: "(int \<Rightarrow> bool \<Rightarrow> int) \<Rightarrow> date \<Rightarrow> date" where
  "truncateToInterval tza InvalidDate = InvalidDate"
| "truncateToInterval tza (Date t) =
     (let seconds = (getSeconds tza t div 10) * 10
      in newDate tza (getFullYear tza t) (getMonth tza t) (getDate tza t)
           (getHours tza t) (getMinutes tza t) seconds 0)"

text \<open>Comparing two dates compares their time values; a comparison with NaN is false.\<close>

fun dateLe :: "date \<Rightarrow> date \<Rightarrow> bool" where
  "dateLe (Date a) (Date b) = (a \<le> b)"
| "dateLe _ _ = False"

section \<open>The aggregation transform\<close>

datatype dateTime = IsDate date | IsString string

record BlueskyPost =
  postId :: string
  "text" :: string
  createdAt :: dateTime
  authorDid :: string

record WordOccurrence =
  intervalTimestamp :: date
  word :: string
  count :: nat

text \<open>A \<open>Map\<close> keeps its keys in the order of their first insertion: an association
  list in which \<open>set\<close> overwrites the value of a key in place and appends a new key.\<close>

fun mapSet :: "('k \<times> 'v) list \<Rightarrow> 'k \<Rightarrow> 'v \<Rightarrow> ('k \<times> 'v) list" where
  "mapSet [] k v = [(k, v)]"
| "mapSet ((k', v') # m) k v = (if k' = k then (k, v) # m else (k', v') # mapSet m k v)"

definition mapGet :: "('k \<times> 'v) list \<Rightarrow> 'k \<Rightarrow> 'v option" where
  "mapGet m k = map_of m k"

text \<open>\<open>wordCounts.get(word) || 0\<close>: a missing key and a zero both give zero.\<close>

definition orZero :: "nat option \<Rightarrow> nat" where
  "orZero v = (case v of None \<Rightarrow> 0 | Some c \<Rightarrow> if c = 0 then 0 else c)"

fun countWords :: "string list \<Rightarrow> (string \<times> nat) list \<Rightarrow> (string \<times> nat) list" where
  "countWords [] wordCounts = wordCounts"
| "countWords (w # ws) wordCounts =
     countWords ws (mapSet wordCounts w (orZero (mapGet wordCounts w) + 1))"

text \<open>The transform from a post to its word occurrences. \<open>parseDate\<close> is the date
  constructor of the runtime on a string.\<close>

definition transform ::
  "(int \<Rightarrow> bool \<Rightarrow> int) \<Rightarrow> (string \<Rightarrow> date) \<Rightarrow> BlueskyPost \<Rightarrow> WordOccurrence list" where
  "transform tza parseDate post =
     (let words = extractWords (text post)
      in if length words = 0 then []
         else
           let postDate = (case createdAt post of IsDate d \<Rightarrow> d | IsString s \<Rightarrow> parseDate s);
               interval = truncateToInterval tza postDate;
               wordCounts = countWords words []
           in map (\<lambda>(w, c). \<lparr>intervalTimestamp = interval, word = w, count = c\<rparr>) wordCounts)"

section \<open>Numbers as text\<close>

text \<open>A number of the program is an integer or NaN. Cursors, counts and time values
  stay far below the range in which the runtime's floating point loses integers.\<close>

datatype number = Num int | NaN

definition digitChar :: "nat \<Rightarrow> char" where
  "digitChar d = ''0123456789'' ! d"

fun showNat :: "nat \<Rightarrow> string" where
  "showNat n = (if n < 10 then [digitChar n] else showNat (n div 10) @ [digitChar (n mod 10)])"

declare showNat.simps [simp del]

text \<open>\<open>toString()\<close> of a number and its use in a template string.\<close>

fun toString :: "number \<Rightarrow> string" where
  "toString (Num i) = (if i < 0 then CHR ''-'' # showNat (nat (- i)) else showNat (nat i))"
| "toString NaN = ''NaN''"

text \<open>The value of a digit in a radix up to 36, when the code unit is one.\<close>

definition digitOf :: "char \<Rightarrow> nat option" where
  "digitOf c =
     (if isDigit c then Some (code c - 48)
      else if isLower c then Some (code c - 87)
      else if isUpper c then Some (code c - 55)
      else None)"

definition validDigit :: "nat \<Rightarrow> char \<Rightarrow> bool" where
  "validDigit R c = (case digitOf c of None \<Rightarrow> False | Some d \<Rightarrow> d < R)"

fun digitsValue :: "nat \<Rightarrow> nat \<Rightarrow> string \<Rightarrow> nat" where
  "digitsValue R acc [] = acc"
| "digitsValue R acc (c # cs) =
     digitsValue R (acc * R + (case digitOf c of None \<Rightarrow> 0 | Some d \<Rightarrow> d)) cs"

definition hexPrefix :: "string \<Rightarrow> bool" where
  "hexPrefix s = (take 2 s = ''0x'' \<or> take 2 s = ''0X'')"

text \<open>\<open>parseInt(s, 10)\<close> for the radix \<open>Some 10\<close> and \<open>parseInt(s)\<close> for
  \<open>None\<close>: skip leading whitespace, read a sign, without a radix read a hex prefix,
  then take the longest run of digits; no digit gives NaN.\<close>

definition parseInt :: "string \<Rightarrow> nat option \<Rightarrow> number" where
  "parseInt s radix =
     (let t = dropWhile isSpace s;
          neg = (take 1 t = ''-'');
          u = (if take 1 t = ''-'' \<or> take 1 t = ''+'' then drop 1 t else t);
          R = (case radix of Some r \<Rightarrow> r | None \<Rightarrow> if hexPrefix u then 16 else 10);
          v = (case radix of Some r \<Rightarrow> u | None \<Rightarrow> if hexPrefix u then drop 2 u else u);
          ds = takeWhile (validDigit R) v
      in if ds = [] then NaN
         else Num ((if neg then - 1 else 1) * int (digitsValue R 0 ds)))"

text \<open>\<open>x > 0\<close> on a number: false on NaN.\<close>

fun positive :: "number \<Rightarrow> bool" where
  "positive (Num i) = (0 < i)"
| "positive NaN = False"

text \<open>\<open>a <= b\<close> on numbers: false when either is NaN.\<close>

fun numLe :: "number \<Rightarrow> number \<Rightarrow> bool" where
  "numLe (Num a) (Num b) = (a \<le> b)"
| "numLe _ _ = False"

section \<open>The feed connector and its batch queue\<close>

definition JETSTREAM_BASE_URL :: string where
  "JETSTREAM_BASE_URL =
     ''wss://jetstream2.us-east.bsky.network/subscribe?wantedCollections=app.bsky.feed.post''"

definition CURSOR_KEY :: string where
  "CURSOR_KEY = ''bluesky:firehose:cursor''"

definition BATCH_SIZE :: nat where
  "BATCH_SIZE = 100"

definition BATCH_INTERVAL_MS :: int where
  "BATCH_INTERVAL_MS = 500"

text \<open>The cursor store behind \<open>MooseCache\<close>: unreachable (every call throws), or a
  table from keys to texts. A key whose time to live has run out is an absent key.\<close>

datatype cursorStore = Unreachable | Reachable "(string \<times> string) list"

text \<open>The variables of the module (\<open>postBatch\<close>, \<open>batchTimer\<close>, \<open>currentCursor\<close>),
  the message counter of the open connection, and what the module acts on: the clock, the
  timeouts that the runtime holds (handle and due time), the batches handed to the
  stream, and the cursor store. The counters \<open>postsProcessed\<close> and \<open>lastStatsTime\<close>
  feed the log only and are left out.\<close>

record firehose =
  postBatch :: "BlueskyPost list"
  batchTimer :: "nat option"
  currentCursor :: number
  messageCount :: nat
  clock :: int
  timers :: "(nat \<times> int) list"
  nextHandle :: nat
  sent :: "BlueskyPost list list"
  cursorStore :: cursorStore

definition initial :: "int \<Rightarrow> cursorStore \<Rightarrow> firehose" where
  "initial now store =
     \<lparr>postBatch = [], batchTimer = None, currentCursor = Num 0, messageCount = 0,
      clock = now, timers = [], nextHandle = 0, sent = [], cursorStore = store\<rparr>"

definition saveCursor :: "number \<Rightarrow> firehose \<Rightarrow> firehose" where
  "saveCursor cursor s =
     (case cursorStore s of
        Unreachable \<Rightarrow> s
      | Reachable m \<Rightarrow> s\<lparr>cursorStore := Reachable (mapSet m CURSOR_KEY (toString cursor))\<rparr>)"

definition loadCursor :: "firehose \<Rightarrow> number" where
  "loadCursor s =
     (let twentyFourHoursAgoMs = clock s - 24 * 60 * 60 * 1000;
          twentyFourHoursAgoUs = twentyFourHoursAgoMs * 1000
      in case cursorStore s of
           Unreachable \<Rightarrow> Num twentyFourHoursAgoUs
         | Reachable m \<Rightarrow>
             (case mapGet m CURSOR_KEY of
                None \<Rightarrow> Num twentyFourHoursAgoUs
              | Some v \<Rightarrow> if v \<noteq> [] then parseInt v (Some 10) else Num twentyFourHoursAgoUs))"

text \<open>The inbound messages. A text that is not JSON, or is JSON but no object, is
  \<open>Unparseable\<close>: it carries no field. A field that may be missing is an option.\<close>

record postRecord =
  recordText :: string

record commit =
  operation :: string
  collection :: string
  rkey :: string
  commitRecord :: "postRecord option"

record jetStreamMessage =
  did :: string
  time_us :: "int option"
  kind :: string
  commit :: "commit option"

datatype inbound = Unparseable | Message jetStreamMessage

text \<open>\<open>new Date(x)\<close> on a number cuts the fraction off towards zero and clips.\<close>

definition dateOfMicros :: "int option \<Rightarrow> date" where
  "dateOfMicros t =
     (case t of
        None \<Rightarrow> InvalidDate
      | Some us \<Rightarrow> TimeClip (if 0 \<le> us then us div 1000 else - ((- us) div 1000)))"

definition parseJetStreamMessage :: "inbound \<Rightarrow> BlueskyPost option" where
  "parseJetStreamMessage data =
     (case data of
        Unparseable \<Rightarrow> None
      | Message msg \<Rightarrow>
          (case commit msg of
             None \<Rightarrow> None
           | Some c \<Rightarrow>
               (case commitRecord c of
                  None \<Rightarrow> None
                | Some r \<Rightarrow>
                    if kind msg \<noteq> ''commit'' \<or> operation c \<noteq> ''create'' \<or>
                       collection c \<noteq> ''app.bsky.feed.post'' \<or> recordText r = []
                    then None
                    else Some \<lparr>postId = ''at://'' @ did msg @ ''/app.bsky.feed.post/'' @ rkey c,
                               text = recordText r,
                               createdAt = IsDate (dateOfMicros (time_us msg)),
                               authorDid = did msg\<rparr>)))"

text \<open>\<open>setTimeout\<close> hands out a new handle and books the timeout; \<open>clearTimeout\<close>
  takes it out of the runtime's book.\<close>

definition setTimeout :: "int \<Rightarrow> firehose \<Rightarrow> nat \<times> firehose" where
  "setTimeout delay s =
     (nextHandle s,
      s\<lparr>timers := timers s @ [(nextHandle s, clock s + delay)], nextHandle := nextHandle s + 1\<rparr>)"

definition clearTimeout :: "nat \<Rightarrow> firehose \<Rightarrow> firehose" where
  "clearTimeout h s = s\<lparr>timers := filter (\<lambda>(h', due). h' \<noteq> h) (timers s)\<rparr>"

text \<open>\<open>flushBatch\<close> up to its first \<open>await\<close>, which is all that touches the queue:
  the send that follows only logs a failure.\<close>

definition flushBatch :: "firehose \<Rightarrow> firehose" where
  "flushBatch s =
     (let s1 = (case batchTimer s of
                  None \<Rightarrow> s
                | Some h \<Rightarrow> (clearTimeout h s)\<lparr>batchTimer := None\<rparr>)
      in if length (postBatch s1) = 0 then s1
         else s1\<lparr>postBatch := [], sent := sent s1 @ [postBatch s1]\<rparr>)"

definition queuePost :: "BlueskyPost \<Rightarrow> firehose \<Rightarrow> firehose" where
  "queuePost post s =
     (let s1 = s\<lparr>postBatch := postBatch s @ [post]\<rparr>
      in if BATCH_SIZE \<le> length (postBatch s1) then flushBatch s1
         else if batchTimer s1 = None then
           (let (h, s2) = setTimeout BATCH_INTERVAL_MS s1 in s2\<lparr>batchTimer := Some h\<rparr>)
         else s1)"

text \<open>The subscription URL that \<open>connectAndProcess\<close> builds; a new connection counts
  its messages from zero.\<close>

definition connectUrl :: "firehose \<Rightarrow> string" where
  "connectUrl s =
     (if positive (currentCursor s)
      then JETSTREAM_BASE_URL @ ''&cursor='' @ toString (currentCursor s)
      else JETSTREAM_BASE_URL)"

definition connectAndProcess :: "firehose \<Rightarrow> string \<times> firehose" where
  "connectAndProcess s = (connectUrl s, s\<lparr>messageCount := 0\<rparr>)"

text \<open>The first lines of the task: load the cursor, then connect.\<close>

definition startTask :: "firehose \<Rightarrow> string \<times> firehose" where
  "startTask s = connectAndProcess (s\<lparr>currentCursor := loadCursor s\<rparr>)"

text \<open>The handler of \<open>ws.on("message")\<close>.\<close>

definition onMessage :: "inbound \<Rightarrow> firehose \<Rightarrow> firehose" where
  "onMessage data s =
     (let s1 = (case data of
                  Unparseable \<Rightarrow> s
                | Message rawMsg \<Rightarrow>
                    (case time_us rawMsg of
                       None \<Rightarrow> s
                     | Some t \<Rightarrow>
                         if t = 0 then s
                         else
                           (let s' = s\<lparr>currentCursor := Num t, messageCount := messageCount s + 1\<rparr>
                            in if messageCount s' mod 1000 = 0
                               then saveCursor (currentCursor s') s' else s')))
      in case parseJetStreamMessage data of
           None \<Rightarrow> s1
         | Some post \<Rightarrow> queuePost post s1)"

text \<open>The handler of \<open>ws.on("close")\<close>.\<close>

definition onClose :: "firehose \<Rightarrow> firehose" where
  "onClose s =
     (let s1 = flushBatch s
      in if positive (currentCursor s1) then saveCursor (currentCursor s1) s1 else s1)"

text \<open>A timeout that comes due leaves the runtime's book and runs its callback, which is
  \<open>flushBatch\<close>. When time passes, the timeouts that are due fire in the order in which
  they were booked.\<close>

definition fireTimer :: "nat \<Rightarrow> firehose \<Rightarrow> firehose" where
  "fireTimer h s = flushBatch (clearTimeout h s)"

fun fireDue :: "(nat \<times> int) list \<Rightarrow> firehose \<Rightarrow> firehose" where
  "fireDue [] s = s"
| "fireDue ((h, due) # ts) s =
     (if due \<le> clock s \<and> (h, due) \<in> set (timers s) then fireDue ts (fireTimer h s)
      else fireDue ts s)"

definition elapse :: "nat \<Rightarrow> firehose \<Rightarrow> firehose" where
  "elapse d s = (let s1 = s\<lparr>clock := clock s + int d\<rparr> in fireDue (timers s1) s1)"

datatype event = Inbound inbound | Elapse nat | Close | Connect

fun step :: "event \<Rightarrow> firehose \<Rightarrow> firehose" where
  "step (Inbound data) s = onMessage data s"
| "step (Elapse d) s = elapse d s"
| "step Close s = onClose s"
| "step Connect s = snd (connectAndProcess s)"

fun run :: "event list \<Rightarrow> firehose \<Rightarrow> firehose" where
  "run [] s = s"
| "run (e # es) s = run es (step e s)"

text \<open>The position that a message carries for the cursor: its \<open>time_us\<close>, when it
  is there and not zero. \<open>positions\<close> lists the positions of a run of events in their
  order, \<open>cursors\<close> the value of the cursor after each event.\<close>

definition positionOf :: "inbound \<Rightarrow> int option" where
  "positionOf data =
     (case data of
        Unparseable \<Rightarrow> None
      | Message rawMsg \<Rightarrow>
          (case time_us rawMsg of None \<Rightarrow> None | Some t \<Rightarrow> if t = 0 then None else Some t))"

fun positions :: "event list \<Rightarrow> int list" where
  "positions [] = []"
| "positions (Inbound data # es) =
     (case positionOf data of None \<Rightarrow> positions es | Some t \<Rightarrow> t # positions es)"
| "positions (e # es) = positions es"

fun cursors :: "event list \<Rightarrow> firehose \<Rightarrow> number list" where
  "cursors [] s = []"
| "cursors (e # es) s = currentCursor (step e s) # cursors es (step e s)"

text \<open>The shape in which the queue rests between two events: the batch is below its
  maximum size; an empty batch has no timeout booked; a batch with posts has exactly one,
  the one \<open>batchTimer\<close> names, due within the batch interval and not yet due.\<close>

definition queueInv :: "firehose \<Rightarrow> bool" where
  "queueInv s =
     (length (postBatch s) < BATCH_SIZE \<and>
      (postBatch s = []) = (batchTimer s = None) \<and>
      map fst (timers s) = (case batchTimer s of None \<Rightarrow> [] | Some h \<Rightarrow> [h]) \<and>
      list_all (\<lambda>(h, due). clock s < due \<and> due \<le> clock s + BATCH_INTERVAL_MS) (timers s))"

text \<open>Messages and states for the examples.\<close>

definition examplePost :: "int \<Rightarrow> string \<Rightarrow> inbound" where
  "examplePost t txt =
     Message \<lparr>did = ''did:plc:abc'', time_us = Some t, kind = ''commit'',
              commit = Some \<lparr>operation = ''create'', collection = ''app.bsky.feed.post'',
                             rkey = ''3kabc'', commitRecord = Some \<lparr>recordText = txt\<rparr>\<rparr>\<rparr>"

definition exampleStart :: firehose where
  "exampleStart = initial 1700000000000 (Reachable [])"

section \<open>The trend query service\<close>

text \<open>A JSON value; an object is the list of its fields, in the order in which they
  were set (the runtime's own order for keys that read as integers is not modelled). A
  \<open>Date\<close> in a response or in the cache is the text that \<open>toISOString\<close> gives.\<close>

datatype json = JNull | JBool bool | JNum int | JStr string | JArr "json list"
  | JObj "(string \<times> json) list"

record response =
  status :: nat
  body :: json

text \<open>A row of the trend table: the word, the interval as the second it starts at, and
  the 64-bit count of the store.\<close>

record WordTrend =
  trendWord :: string
  interval :: int
  totalCount :: "64 word"

datatype store = StoreDown string | StoreUp "WordTrend list"

text \<open>What a request meets outside the handler: the clock, the date constructor and
  \<open>toISOString\<close> of the runtime, whether \<open>MooseCache.get()\<close> throws (and with which
  message), and the trend store, which throws its message when it is down.\<close>

record env =
  envNow :: int
  envParseDate :: "string \<Rightarrow> date"
  envToISOString :: "int \<Rightarrow> string"
  envCacheDown :: "string option"
  envStore :: store

text \<open>The response cache: a key has a value and the time at which it runs out.\<close>

type_synonym cache = "(string \<times> json \<times> int) list"

definition cacheGet :: "int \<Rightarrow> cache \<Rightarrow> string \<Rightarrow> json option" where
  "cacheGet now c key =
     (case mapGet c key of
        None \<Rightarrow> None
      | Some (v, expires) \<Rightarrow> if now < expires then Some v else None)"

definition cacheSet :: "int \<Rightarrow> cache \<Rightarrow> string \<Rightarrow> json \<Rightarrow> int \<Rightarrow> cache" where
  "cacheSet now c key v ttl = mapSet c key (v, now + ttl * 1000)"

text \<open>\<open>if (cached)\<close> on what the cache returns: a missing key is \<open>null\<close>.\<close>

fun truthy :: "json \<Rightarrow> bool" where
  "truthy JNull = False"
| "truthy (JBool b) = b"
| "truthy (JNum n) = (n \<noteq> 0)"
| "truthy (JStr s) = (s \<noteq> [])"
| "truthy (JArr xs) = True"
| "truthy (JObj fs) = True"

definition field :: "string \<Rightarrow> json \<Rightarrow> json option" where
  "field k v = (case v of JObj fs \<Rightarrow> map_of fs k | _ \<Rightarrow> None)"

text \<open>\<open>{ ...base, ...v }\<close>: the fields of the spread value are set on the object in
  their order; an array spreads its indices, a text its code units.\<close>

definition spreadFields :: "json \<Rightarrow> (string \<times> json) list" where
  "spreadFields v =
     (case v of
        JObj fs \<Rightarrow> fs
      | JArr xs \<Rightarrow> zip (map (\<lambda>i. toString (Num (int i))) [0 ..< length xs]) xs
      | JStr cs \<Rightarrow> zip (map (\<lambda>i. toString (Num (int i))) [0 ..< length cs]) (map (\<lambda>c. JStr [c]) cs)
      | _ \<Rightarrow> [])"

definition spread :: "(string \<times> json) list \<Rightarrow> json \<Rightarrow> (string \<times> json) list" where
  "spread base v = foldl (\<lambda>fs (k, x). mapSet fs k x) base (spreadFields v)"

text \<open>\<open>formatDateForCH\<close> cuts the ISO text down to \<open>YYYY-MM-DD HH:MM:SS\<close>, which
  names a second; the model keeps the second.\<close>

definition formatDateForCH :: "int \<Rightarrow> int" where
  "formatDateForCH t = t div 1000"

text \<open>The query of \<open>/search\<close> and of \<open>/compare\<close>: the rows of one word between two
  seconds, by interval ascending.\<close>

definition seriesQuery :: "WordTrend list \<Rightarrow> string \<Rightarrow> int \<Rightarrow> int \<Rightarrow> json list" where
  "seriesQuery table w from to =
     map (\<lambda>r. JObj [(''interval'', JNum (interval r)), (''count'', JNum (sint (totalCount r)))])
       (sort_key interval
          (filter (\<lambda>r. trendWord r = w \<and> formatDateForCH from \<le> interval r \<and>
                       interval r \<le> formatDateForCH to) table))"

text \<open>The query of \<open>/top\<close>: the rows from the cutoff on, grouped by word with the
  counts summed in 64 bits, by total descending, cut at the limit. The order among equal
  totals is the store's choice; the model makes one.\<close>

definition groupTotals :: "WordTrend list \<Rightarrow> (string \<times> 64 word) list" where
  "groupTotals rows =
     map (\<lambda>w. (w, sum_list (map totalCount (filter (\<lambda>r. trendWord r = w) rows))))
       (remdups (map trendWord rows))"

definition topQuery :: "WordTrend list \<Rightarrow> int \<Rightarrow> int \<Rightarrow> json list" where
  "topQuery table cutoff limit =
     map (\<lambda>(w, total). JObj [(''word'', JStr w), (''total'', JNum (sint total))])
       (take (nat limit)
          (sort_key (\<lambda>(w, total). - sint total)
             (groupTotals (filter (\<lambda>r. formatDateForCH cutoff \<le> interval r) table))))"

definition totalOf :: "json \<Rightarrow> int" where
  "totalOf row = (case field ''total'' row of Some (JNum t) \<Rightarrow> t | _ \<Rightarrow> 0)"

text \<open>The time range of a request: a parameter that is there and not empty goes through
  the date constructor, else the default stands.\<close>

definition dateParam :: "env \<Rightarrow> string option \<Rightarrow> int \<Rightarrow> date" where
  "dateParam e p dflt =
     (case p of None \<Rightarrow> Date dflt | Some s \<Rightarrow> if s \<noteq> [] then envParseDate e s else Date dflt)"

definition serverError :: "string \<Rightarrow> response" where
  "serverError msg =
     \<lparr>status = 500, body = JObj [(''success'', JBool False), (''error'', JStr msg)]\<rparr>"

definition badRequest :: "string \<Rightarrow> response" where
  "badRequest msg = \<lparr>status = 400, body = JObj [(''error'', JStr msg)]\<rparr>"

definition ok :: "(string \<times> json) list \<Rightarrow> response" where
  "ok fs = \<lparr>status = 200, body = JObj fs\<rparr>"

text \<open>The cache lookup of a handler: a hit is a value that is there, has not run out
  and passes \<open>if (cached)\<close>.\<close>

definition cacheHit :: "int \<Rightarrow> cache \<Rightarrow> string \<Rightarrow> json option" where
  "cacheHit now c key =
     (case cacheGet now c key of
        None \<Rightarrow> None
      | Some cached \<Rightarrow> if truthy cached then Some cached else None)"

text \<open>\<open>GET /search\<close>. \<open>toISOString\<close> throws on an invalid date, inside the
  \<open>try\<close>, and so does a cache or a store that is down.\<close>

definition searchKey :: "env \<Rightarrow> string \<Rightarrow> int \<Rightarrow> int \<Rightarrow> string" where
  "searchKey e w f t =
     ''trends:search:'' @ w @ '':'' @ envToISOString e f @ '':'' @ envToISOString e t"

definition search ::
  "env \<Rightarrow> cache \<Rightarrow> string option \<Rightarrow> string option \<Rightarrow> string option \<Rightarrow> response \<times> cache" where
  "search e c wordParam fromParam toParam =
     (case map_option toLowerCase wordParam of
        None \<Rightarrow> (badRequest ''word parameter is required'', c)
      | Some w \<Rightarrow>
          if w = [] then (badRequest ''word parameter is required'', c)
          else
            (let now = envNow e;
                 defaultFrom = now - 60 * 60 * 1000;
                 from = dateParam e fromParam defaultFrom;
                 to = dateParam e toParam now
             in case envCacheDown e of
                  Some msg \<Rightarrow> (serverError msg, c)
                | None \<Rightarrow>
                    (case (from, to) of
                       (Date f, Date t) \<Rightarrow>
                         (let cacheKey = searchKey e w f t
                          in case cacheHit now c cacheKey of
                               Some cached \<Rightarrow>
                                 (ok [(''success'', JBool True), (''cached'', JBool True),
                                      (''data'', cached)], c)
                             | None \<Rightarrow>
                                 (case envStore e of
                                    StoreDown msg \<Rightarrow> (serverError msg, c)
                                  | StoreUp table \<Rightarrow>
                                      (let data = JArr (seriesQuery table w f t)
                                       in (ok [(''success'', JBool True), (''word'', JStr w),
                                               (''from'', JStr (envToISOString e f)),
                                               (''to'', JStr (envToISOString e t)),
                                               (''data'', data)],
                                           cacheSet now c cacheKey data 30))))
                     | _ \<Rightarrow> (serverError ''Invalid time value'', c))))"

text \<open>\<open>GET /top\<close>. \<open>parseInt(p) || d\<close>: a missing parameter, no number and zero
  all give the default. A limit below zero is outside the model, which cuts at zero
  rows there.\<close>

definition intParam :: "string option \<Rightarrow> int \<Rightarrow> int" where
  "intParam p dflt =
     (case p of
        None \<Rightarrow> dflt
      | Some s \<Rightarrow> (case parseInt s None of NaN \<Rightarrow> dflt | Num n \<Rightarrow> if n = 0 then dflt else n))"

definition topKey :: "int \<Rightarrow> int \<Rightarrow> string" where
  "topKey minutes limit = ''trends:top:'' @ toString (Num minutes) @ '':'' @ toString (Num limit)"

definition top_endpoint ::
  "env \<Rightarrow> cache \<Rightarrow> string option \<Rightarrow> string option \<Rightarrow> response \<times> cache" where
  "top_endpoint e c minutesParam limitParam =
     (let minutes = intParam minutesParam 5;
          limit = intParam limitParam 20
      in case envCacheDown e of
           Some msg \<Rightarrow> (serverError msg, c)
         | None \<Rightarrow>
             (let cacheKey = topKey minutes limit
              in case cacheHit (envNow e) c cacheKey of
                   Some cached \<Rightarrow>
                     (ok [(''success'', JBool True), (''cached'', JBool True), (''data'', cached)], c)
                 | None \<Rightarrow>
                     (let cutoff = envNow e - minutes * 60 * 1000
                      in case envStore e of
                           StoreDown msg \<Rightarrow> (serverError msg, c)
                         | StoreUp table \<Rightarrow>
                             (let data = JArr (topQuery table cutoff limit)
                              in (ok [(''success'', JBool True), (''minutes'', JNum minutes),
                                      (''limit'', JNum limit), (''data'', data)],
                                  cacheSet (envNow e) c cacheKey data 15)))))"

text \<open>\<open>GET /compare\<close>. \<open>split(",")\<close>, \<open>trim()\<close> and \<open>join(",")\<close> on texts.\<close>

fun splitOn :: "char \<Rightarrow> string \<Rightarrow> string list" where
  "splitOn sep [] = [[]]"
| "splitOn sep (x # xs) =
     (if x = sep then [] # splitOn sep xs
      else (case splitOn sep xs of [] \<Rightarrow> [[x]] | t # ts \<Rightarrow> (x # t) # ts))"

definition trim :: "string \<Rightarrow> string" where
  "trim s = rev (dropWhile isSpace (rev (dropWhile isSpace s)))"

fun joinWith :: "string \<Rightarrow> string list \<Rightarrow> string" where
  "joinWith sep [] = []"
| "joinWith sep [w] = w"
| "joinWith sep (w # ws) = w @ sep @ joinWith sep ws"

definition cleanWords :: "string \<Rightarrow> string list" where
  "cleanWords wordsParam =
     filter (\<lambda>w. 0 < length w) (map (\<lambda>w. toLowerCase (trim w)) (splitOn CHR '','' wordsParam))"

definition compareKey :: "env \<Rightarrow> string list \<Rightarrow> int \<Rightarrow> int \<Rightarrow> string" where
  "compareKey e ws f t =
     ''trends:compare:'' @ joinWith '','' ws @ '':'' @ envToISOString e f @ '':'' @
     envToISOString e t"

text \<open>\<open>results[word] = rows\<close> on a plain object: the key \<open>__proto__\<close> is the
  setter of the prototype, so that assignment sets the prototype of \<open>results\<close> and
  stores no field; every other key becomes a field.\<close>

definition assign :: "(string \<times> json) list \<Rightarrow> string \<Rightarrow> json \<Rightarrow> (string \<times> json) list" where
  "assign obj key v = (if key = ''__proto__'' then obj else mapSet obj key v)"

text \<open>The loop over the words, one query for each word.\<close>

fun compareResults ::
  "WordTrend list \<Rightarrow> int \<Rightarrow> int \<Rightarrow> string list \<Rightarrow> (string \<times> json) list \<Rightarrow> (string \<times> json) list" where
  "compareResults table f t [] results = results"
| "compareResults table f t (w # ws) results =
     compareResults table f t ws (assign results w (JArr (seriesQuery table w f t)))"

definition compare ::
  "env \<Rightarrow> cache \<Rightarrow> string option \<Rightarrow> string option \<Rightarrow> string option \<Rightarrow> response \<times> cache" where
  "compare e c wordsParam fromParam toParam =
     (case wordsParam of
        None \<Rightarrow> (badRequest ''words parameter is required'', c)
      | Some wp \<Rightarrow>
          if wp = [] then (badRequest ''words parameter is required'', c)
          else
            (let ws = cleanWords wp
             in if length ws = 0 then (badRequest ''At least one word is required'', c)
                else if 10 < length ws then (badRequest ''Maximum 10 words allowed'', c)
                else
                  (let now = envNow e;
                       defaultFrom = now - 60 * 60 * 1000;
                       from = dateParam e fromParam defaultFrom;
                       to = dateParam e toParam now
                   in case envCacheDown e of
                        Some msg \<Rightarrow> (serverError msg, c)
                      | None \<Rightarrow>
                          (case (from, to) of
                             (Date f, Date t) \<Rightarrow>
                               (let cacheKey = compareKey e ws f t
                                in case cacheHit now c cacheKey of
                                     Some cached \<Rightarrow>
                                       (ok (spread [(''success'', JBool True),
                                                    (''cached'', JBool True)] cached), c)
                                   | None \<Rightarrow>
                                       (case envStore e of
                                          StoreDown msg \<Rightarrow> (serverError msg, c)
                                        | StoreUp table \<Rightarrow>
                                            (let results = compareResults table f t ws [];
                                                 response =
                                                   JObj [(''words'', JArr (map JStr ws)),
                                                         (''from'', JStr (envToISOString e f)),
                                                         (''to'', JStr (envToISOString e t)),
                                                         (''data'', JObj results)]
                                             in (ok (spread [(''success'', JBool True)] response),
                                                 cacheSet now c cacheKey response 30))))
                           | _ \<Rightarrow> (serverError ''Invalid time value'', c)))))"

text \<open>What \<open>/top\<close> promises of its data under a limit: an array of at most that many
  rows, with totals that do not increase. A cache is sound for \<open>/top\<close> when every
  value under a key of \<open>/top\<close> has that shape for the limit of the key.\<close>

definition topShape :: "int \<Rightarrow> json \<Rightarrow> bool" where
  "topShape limit v =
     (case v of
        JArr rows \<Rightarrow> length rows \<le> nat limit \<and> sorted_wrt (\<lambda>a b. totalOf b \<le> totalOf a) rows
      | _ \<Rightarrow> False)"

definition topCached :: "cache \<Rightarrow> bool" where
  "topCached c =
     (\<forall>minutes limit v expires.
        map_of c (topKey minutes limit) = Some (v, expires) \<longrightarrow> topShape limit v)"

text \<open>The requests of the service and its run over a history of requests, each with the
  world it meets; the cache is what one request leaves to the next.\<close>

datatype request =
    Search "string option" "string option" "string option"
  | Top "string option" "string option"
  | Compare "string option" "string option" "string option"

fun api :: "env \<Rightarrow> cache \<Rightarrow> request \<Rightarrow> response \<times> cache" where
  "api e c (Search w f t) = search e c w f t"
| "api e c (Top m l) = top_endpoint e c m l"
| "api e c (Compare ws f t) = compare e c ws f t"

fun serve :: "(env \<times> request) list \<Rightarrow> cache \<Rightarrow> cache" where
  "serve [] c = c"
| "serve ((e, r) # rs) c = serve rs (snd (api e c r))"

text \<open>A world for the examples: the clock stands at 2024-01-01T01:00:00Z, and the date
  constructor and \<open>toISOString\<close> are given on the two instants that the examples use.\<close>

definition exampleTable :: "WordTrend list" where
  "exampleTable =
     [\<lparr>trendWord = ''cat'', interval = 1704070790, totalCount = 5\<rparr>,
      \<lparr>trendWord = ''dog'', interval = 1704070780, totalCount = 7\<rparr>,
      \<lparr>trendWord = ''cat'', interval = 1704070780, totalCount = 4\<rparr>,
      \<lparr>trendWord = ''owl'', interval = 1704067300, totalCount = 50\<rparr>]"

definition exampleEnv :: env where
  "exampleEnv =
     \<lparr>envNow = 1704070800000,
      envParseDate = (\<lambda>s. if s = ''2024-01-01T00:00:00.000Z'' then Date 1704067200000
                           else if s = ''2024-01-01T01:00:00.000Z'' then Date 1704070800000
                           else InvalidDate),
      envToISOString = (\<lambda>t. if t = 1704067200000 then ''2024-01-01T00:00:00.000Z''
                             else if t = 1704070800000 then ''2024-01-01T01:00:00.000Z''
                             else []),
      envCacheDown = None,
      envStore = StoreUp exampleTable\<rparr>"

section \<open>Properties\<close>

lemma map_of_mapSet: "map_of (mapSet m k v) = (map_of m)(k \<mapsto> v)"
  by (induction m k v rule: mapSet.induct) (auto simp: fun_eq_iff)


text \<open>
  Claim C2. On the text \<open>Check out https://x.com #AI is amazing!\<close> the word extractor
  returns exactly \<open>check\<close> and \<open>amazing\<close>: the URL is stripped, \<open>out\<close> and \<open>is\<close> are
  in the stop-word set, and \<open>ai\<close>, what is left of the hashtag, is shorter than the
  minimum length 3.
\<close>

theorem extractWords_example:
  "extractWords ''Check out https://x.com #AI is amazing!'' = [''check'', ''amazing''] \<and>
   withoutUrls ''Check out https://x.com #AI is amazing!'' = ''Check out  #AI is amazing!'' \<and>
   rawTokens ''Check out https://x.com #AI is amazing!'' =
     [''check'', ''out'', ''ai'', ''is'', ''amazing'', ''''] \<and>
   isStopWord ''out'' \<and> isStopWord ''is'' \<and> length ''ai'' < MIN_WORD_LENGTH"
  by code_simp


lemma truncate_example:
  "truncateToInterval utcZone (Date 1700000012345) = Date 1700000010000"
proof -
  let ?t = "1700000012345 :: int"
  have lt: "LocalTime utcZone ?t = ?t"
    by (simp add: LocalTime_def utcZone_def)
  have d: "Day ?t = 19675"
    by (simp add: Day_def)
  have y: "YearFromTime ?t = 2023"
    unfolding YearFromTime_def d Let_def
    by (simp add: eval_nat_numeral DayFromYear_def)
  have dwy: "DayWithinYear ?t = 317"
    by (simp add: DayWithinYear_def y d DayFromYear_def)
  have leap: "InLeapYear ?t = 0"
    by (simp add: InLeapYear_def y DaysInYear_def)
  have m: "MonthFromTime ?t = 10"
    by (simp add: MonthFromTime_def dwy leap)
  have dt: "DateFromTime ?t = 14"
    by (simp add: DateFromTime_def dwy leap m)
  have hms: "HourFromTime ?t = 22" "MinFromTime ?t = 13" "SecFromTime ?t = 32"
    by (simp_all add: HourFromTime_def MinFromTime_def SecFromTime_def)
  have new: "newDate utcZone 2023 10 14 22 13 30 0 = Date 1700000010000"
    by (simp add: newDate_def MakeDate_def MakeDay_def MakeTime_def monthStart_def
        DayFromYear_def DaysInYear_def UTC_def utcZone_def TimeClip_def)
  show ?thesis
    by (simp add: getSeconds_def getMinutes_def getHours_def getDate_def getMonth_def
        getFullYear_def lt y m dt hms new)
qed

text \<open>
  Claim C3, on the code. The timestamp 0050-06-15T12:34:56.789Z, the time value
  -60574994703211, lies in the year 50. \<open>truncateToInterval\<close> rebuilds the date with the
  constructor, which reads the year 50 as 1950: the result is 1950-06-15T12:34:50.000Z,
  the time value -616850710000, some 1900 years after the timestamp and not less than or
  equal to it.
\<close>

theorem truncateToInterval_year_below_100:
  "getFullYear utcZone (- 60574994703211) = 50 \<and>
   truncateToInterval utcZone (Date (- 60574994703211)) = Date (- 616850710000) \<and>
   \<not> dateLe (truncateToInterval utcZone (Date (- 60574994703211))) (Date (- 60574994703211))"
proof -
  let ?t = "- 60574994703211 :: int"
  have lt: "LocalTime utcZone ?t = ?t"
    by (simp add: LocalTime_def utcZone_def)
  have d: "Day ?t = - 701100"
    by (simp add: Day_def)
  have y: "YearFromTime ?t = 50"
    unfolding YearFromTime_def d Let_def
    by (simp add: eval_nat_numeral DayFromYear_def)
  have dwy: "DayWithinYear ?t = 165"
    by (simp add: DayWithinYear_def y d DayFromYear_def)
  have leap: "InLeapYear ?t = 0"
    by (simp add: InLeapYear_def y DaysInYear_def)
  have m: "MonthFromTime ?t = 5"
    by (simp add: MonthFromTime_def dwy leap)
  have dt: "DateFromTime ?t = 15"
    by (simp add: DateFromTime_def dwy leap m)
  have hms: "HourFromTime ?t = 12" "MinFromTime ?t = 34" "SecFromTime ?t = 56"
    by (simp_all add: HourFromTime_def MinFromTime_def SecFromTime_def)
  have new: "newDate utcZone 50 5 15 12 34 50 0 = Date (- 616850710000)"
    by (simp add: newDate_def MakeDate_def MakeDay_def MakeTime_def monthStart_def
        DayFromYear_def DaysInYear_def UTC_def utcZone_def TimeClip_def)
  have year: "getFullYear utcZone ?t = 50"
    by (simp add: getFullYear_def lt y)
  have tr: "truncateToInterval utcZone (Date ?t) = Date (- 616850710000)"
    by (simp add: getSeconds_def getMinutes_def getHours_def getDate_def getMonth_def
        getFullYear_def lt y m dt hms new)
  have "\<not> dateLe (truncateToInterval utcZone (Date ?t)) (Date ?t)"
    unfolding tr by simp
  with year tr show ?thesis
    by (intro conjI)
qed


lemma keys_mapSet: "fst ` set (mapSet m k v) = insert k (fst ` set m)"
  by (induction m k v rule: mapSet.induct) auto

lemma distinct_mapSet: "distinct (map fst m) \<Longrightarrow> distinct (map fst (mapSet m k v))"
proof (induction m k v rule: mapSet.induct)
  case (1 k v)
  then show ?case by simp
next
  case (2 k' v' m k v)
  then show ?case
    using keys_mapSet [of m k v] by auto
qed

lemma sum_mapSet:
  "sum_list (map snd (mapSet m k (Suc (orZero (mapGet m k))))) = Suc (sum_list (map snd m))"
  by (induction m) (auto simp: orZero_def mapGet_def)

lemma keys_countWords: "fst ` set (countWords ws m) = fst ` set m \<union> set ws"
  by (induction ws arbitrary: m) (auto simp: keys_mapSet)

lemma distinct_countWords:
  "distinct (map fst m) \<Longrightarrow> distinct (map fst (countWords ws m))"
  by (induction ws arbitrary: m) (auto simp: distinct_mapSet)

lemma sum_countWords:
  "sum_list (map snd (countWords ws m)) = sum_list (map snd m) + length ws"
  by (induction ws arbitrary: m) (auto simp: sum_mapSet)

lemma orZero_Some [simp]: "orZero (Some c) = c" and orZero_None [simp]: "orZero None = 0"
  by (auto simp: orZero_def)

lemma get_countWords:
  "orZero (mapGet (countWords ws m) w) = orZero (mapGet m w) + count_list ws w"
  by (induction ws arbitrary: m) (auto simp: mapGet_def map_of_mapSet)

lemma countWords_entry:
  assumes "(w, c) \<in> set (countWords ws [])"
  shows "c = count_list ws w"
proof -
  have "distinct (map fst (countWords ws []))"
    by (simp add: distinct_countWords)
  with assms have "map_of (countWords ws []) w = Some c"
    by simp
  then have "orZero (mapGet (countWords ws []) w) = c"
    by (simp add: mapGet_def)
  then show ?thesis
    using get_countWords [of ws "[]" w] by (simp add: mapGet_def)
qed

text \<open>
  Claim C4. For every post the transform emits one record per distinct extracted token,
  carrying the number of times the token occurs in the post: the words of the records are
  distinct and are the extracted tokens, there are as many records as distinct tokens,
  the counts add up to the number of extracted tokens, and a post with no extracted token
  gives no record.
\<close>

theorem transform_one_record_per_distinct_word:
  "distinct (map word (transform tz parseDate post)) \<and>
   set (map word (transform tz parseDate post)) = set (extractWords (text post)) \<and>
   length (transform tz parseDate post) = card (set (extractWords (text post))) \<and>
   (\<forall>r \<in> set (transform tz parseDate post).
      count r = count_list (extractWords (text post)) (word r)) \<and>
   sum_list (map count (transform tz parseDate post)) = length (extractWords (text post)) \<and>
   (extractWords (text post) = [] \<longrightarrow> transform tz parseDate post = [])"
proof -
  define ws where "ws = extractWords (text post)"
  define iv where "iv = truncateToInterval tz
     (case createdAt post of IsDate d \<Rightarrow> d | IsString s \<Rightarrow> parseDate s)"
  define mk where "mk = (\<lambda>(w, c). \<lparr>intervalTimestamp = iv, word = w, count = c\<rparr>)"
  have out: "transform tz parseDate post = map mk (countWords ws [])"
    by (cases ws) (simp_all add: transform_def Let_def ws_def iv_def mk_def)
  have words: "map word (map mk (countWords ws [])) = map fst (countWords ws [])"
    by (simp add: mk_def case_prod_unfold)
  have counts: "map count (map mk (countWords ws [])) = map snd (countWords ws [])"
    by (simp add: mk_def case_prod_unfold)
  have d: "distinct (map fst (countWords ws []))"
    by (simp add: distinct_countWords)
  have k: "set (map fst (countWords ws [])) = set ws"
    using keys_countWords [of ws "[]"] by simp
  have l: "length (countWords ws []) = card (set ws)"
    using distinct_card [OF d] k by simp
  have c: "\<forall>r \<in> set (map mk (countWords ws [])). count r = count_list ws (word r)"
    by (auto simp: mk_def dest: countWords_entry)
  have s: "sum_list (map snd (countWords ws [])) = length ws"
    by (simp add: sum_countWords)
  show ?thesis
    unfolding out ws_def [symmetric] words counts
    using d k l c s by simp
qed


theorem transform_one_record_per_distinct_word_witness:
  "\<lparr>intervalTimestamp = Date 1700000010000, word = ''cats'', count = 3\<rparr>
     \<in> set (transform utcZone (\<lambda>s. InvalidDate)
          \<lparr>postId = ''at://did:plc:a/app.bsky.feed.post/1'',
           text = ''Cats chase cats; dogs chase CATS'',
           createdAt = IsDate (Date 1700000012345), authorDid = ''did:plc:a''\<rparr>) \<and>
   count_list (extractWords ''Cats chase cats; dogs chase CATS'') ''cats'' = 3 \<and>
   extractWords ''Is it?'' = [] \<and>
   transform utcZone (\<lambda>s. InvalidDate)
     \<lparr>postId = ''at://did:plc:a/app.bsky.feed.post/2'', text = ''Is it?'',
      createdAt = IsString ''2024-01-01T00:00:00Z'', authorDid = ''did:plc:a''\<rparr> = []"
proof -
  let ?p = "\<lparr>postId = ''at://did:plc:a/app.bsky.feed.post/1'',
           text = ''Cats chase cats; dogs chase CATS'',
           createdAt = IsDate (Date 1700000012345), authorDid = ''did:plc:a''\<rparr>"
  let ?q = "\<lparr>postId = ''at://did:plc:a/app.bsky.feed.post/2'', text = ''Is it?'',
      createdAt = IsString ''2024-01-01T00:00:00Z'', authorDid = ''did:plc:a''\<rparr>"
  let ?r = "\<lparr>intervalTimestamp = Date 1700000010000, word = ''cats'', count = 3\<rparr>"
  have words: "extractWords ''Cats chase cats; dogs chase CATS'' =
      [''cats'', ''chase'', ''cats'', ''dogs'', ''chase'', ''cats'']"
    by code_simp
  have mem: "?r \<in> set (transform utcZone (\<lambda>s. InvalidDate) ?p)"
    by (simp add: transform_def words truncate_example mapGet_def Let_def
        del: truncateToInterval.simps)
  have empty: "extractWords (text ?q) = []"
    by code_simp
  from transform_one_record_per_distinct_word [of utcZone "\<lambda>s. InvalidDate" ?p] mem
  have "count ?r = count_list (extractWords (text ?p)) (word ?r)"
    by blast
  moreover from transform_one_record_per_distinct_word [of utcZone "\<lambda>s. InvalidDate" ?q] empty
  have "transform utcZone (\<lambda>s. InvalidDate) ?q = []"
    by blast
  ultimately show ?thesis
    using mem empty by simp
qed


lemma code_char_of: "n < 256 \<Longrightarrow> code (char_of n) = n"
  by (simp add: code_def)

lemma lowerChar_not_upper: "\<not> isUpper (lowerChar c)"
  by (auto simp: lowerChar_def isUpper_def code_char_of)

lemma keepChar_not_upper: "\<not> isUpper c \<Longrightarrow> \<not> isUpper (keepChar c)"
  by (simp add: keepChar_def isUpper_def code_def)

lemma splitWs_tokens:
  "t \<in> set (splitWs s) \<Longrightarrow> set t \<subseteq> set s \<and> (\<forall>c \<in> set t. \<not> isSpace c)"
proof (induction s rule: splitWs.induct)
  case (1 s)
  let ?tok = "takeWhile (\<lambda>x. \<not> isSpace x) s"
  let ?rest = "dropWhile (\<lambda>x. \<not> isSpace x) s"
  have tok: "set ?tok \<subseteq> set s \<and> (\<forall>c \<in> set ?tok. \<not> isSpace c)"
    by (auto dest: set_takeWhileD)
  show ?case
  proof (cases "?rest = []")
    case True
    with "1.prems" have "t = ?tok"
      by (subst (asm) splitWs.simps) (simp add: Let_def)
    with tok show ?thesis by simp
  next
    case False
    with "1.prems" have "t = ?tok \<or> t \<in> set (splitWs (dropWhile isSpace ?rest))"
      by (subst (asm) splitWs.simps) (auto simp: Let_def split: if_splits)
    then show ?thesis
    proof
      assume "t = ?tok"
      with tok show ?thesis by simp
    next
      assume "t \<in> set (splitWs (dropWhile isSpace ?rest))"
      with "1.IH" [OF refl refl False]
      have "set t \<subseteq> set (dropWhile isSpace ?rest) \<and> (\<forall>c \<in> set t. \<not> isSpace c)"
        by simp
      moreover have "set (dropWhile isSpace ?rest) \<subseteq> set s"
        by (blast dest: set_dropWhileD)
      ultimately show ?thesis by blast
    qed
  qed
qed

lemma rawTokens_chars:
  assumes "t \<in> set (rawTokens txt)"
  shows "(\<forall>c \<in> set t. \<not> isUpper c \<and> \<not> isSpace c) \<and> (\<forall>r. t \<noteq> CHR ''#'' # r)"
proof -
  from assms obtain u
    where u: "u \<in> set (splitWs (map keepChar (toLowerCase (withoutMentions txt))))"
    and t: "t = stripHashes u"
    by (auto simp: rawTokens_def)
  from splitWs_tokens [OF u]
  have "\<forall>c \<in> set u. \<not> isUpper c \<and> \<not> isSpace c"
    using keepChar_not_upper [OF lowerChar_not_upper] by (auto simp: toLowerCase_def)
  moreover have "set t \<subseteq> set u"
    using t by (auto simp: stripHashes_def dest: set_dropWhileD)
  moreover have "\<forall>r. t \<noteq> CHR ''#'' # r"
  proof (intro allI notI)
    fix r
    assume "t = CHR ''#'' # r"
    then have eq: "dropWhile (\<lambda>c. c = CHR ''#'') u = CHR ''#'' # r"
      using t by (simp add: stripHashes_def)
    then have "dropWhile (\<lambda>c. c = CHR ''#'') u \<noteq> []"
      by simp
    from hd_dropWhile [OF this] eq show False
      by simp
  qed
  ultimately show ?thesis by blast
qed

text \<open>
  Claim C10. For every input text, every token that the word extractor returns has no
  upper-case ASCII letter and no whitespace, has at least three code units, does not
  begin with the hash sign, is not a stop word and is not made of decimal digits only.
\<close>

theorem extractWords_normalized:
  "\<forall>w \<in> set (extractWords txt).
     (\<forall>c \<in> set w. \<not> isUpper c) \<and> (\<forall>c \<in> set w. \<not> isSpace c) \<and>
     3 \<le> length w \<and> (\<forall>r. w \<noteq> CHR ''#'' # r) \<and>
     w \<notin> set STOP_WORDS \<and> \<not> list_all isDigit w"
proof
  fix w
  assume w: "w \<in> set (extractWords txt)"
  then have raw: "w \<in> set (rawTokens txt)" and len: "3 \<le> length w"
    and stop: "\<not> isStopWord w" and num: "\<not> isNumeric w"
    by (auto simp: extractWords_def MIN_WORD_LENGTH_def)
  from len have ne: "w \<noteq> []" by auto
  from rawTokens_chars [OF raw]
  have chars: "\<forall>c \<in> set w. \<not> isUpper c \<and> \<not> isSpace c"
    and hash: "\<forall>r. w \<noteq> CHR ''#'' # r"
    by simp_all
  from stop have nostop: "w \<notin> set STOP_WORDS"
    by (simp add: isStopWord_def)
  from num ne have nonum: "\<not> list_all isDigit w"
    by (simp add: isNumeric_def)
  from chars have "\<forall>c \<in> set w. \<not> isUpper c" and "\<forall>c \<in> set w. \<not> isSpace c"
    by simp_all
  with len hash nostop nonum
  show "(\<forall>c \<in> set w. \<not> isUpper c) \<and> (\<forall>c \<in> set w. \<not> isSpace c) \<and>
     3 \<le> length w \<and> (\<forall>r. w \<noteq> CHR ''#'' # r) \<and>
     w \<notin> set STOP_WORDS \<and> \<not> list_all isDigit w"
    by (intro conjI)
qed

theorem extractWords_normalized_witness:
  "''programming'' \<in> set (extractWords ''Rust #Programming is FUN 2024'') \<and>
   list_all (\<lambda>c. \<not> isUpper c \<and> \<not> isSpace c) ''programming'' \<and>
   3 \<le> length ''programming'' \<and> ''programming'' \<notin> set STOP_WORDS \<and>
   \<not> list_all isDigit ''programming''"
proof -
  let ?w = "''programming''"
  have mem: "?w \<in> set (extractWords ''Rust #Programming is FUN 2024'')"
    by code_simp
  have props: "(\<forall>c \<in> set ?w. \<not> isUpper c) \<and> (\<forall>c \<in> set ?w. \<not> isSpace c) \<and>
     3 \<le> length ?w \<and> (\<forall>r. ?w \<noteq> CHR ''#'' # r) \<and>
     ?w \<notin> set STOP_WORDS \<and> \<not> list_all isDigit ?w"
    by (rule bspec [OF extractWords_normalized mem])
  then have "list_all (\<lambda>c. \<not> isUpper c \<and> \<not> isSpace c) ?w"
    unfolding list_all_iff by (intro ballI conjI) (elim conjE, erule (1) bspec)+
  with mem props show ?thesis
    by (intro conjI) (elim conjE, assumption)+
qed


lemma below_ten:
  "(d::nat) < 10 \<Longrightarrow>
   d = 0 \<or> d = 1 \<or> d = 2 \<or> d = 3 \<or> d = 4 \<or> d = 5 \<or> d = 6 \<or> d = 7 \<or> d = 8 \<or> d = 9"
  by arith

lemma isDigit_digitChar: "d < 10 \<Longrightarrow> isDigit (digitChar d)"
  by (drule below_ten) (auto simp: isDigit_def digitChar_def code_def)

lemma digitOf_digitChar: "d < 10 \<Longrightarrow> digitOf (digitChar d) = Some d"
  by (drule below_ten) (auto simp: digitOf_def isDigit_def digitChar_def code_def)

lemma isDigit_not_space: "isDigit c \<Longrightarrow> \<not> isSpace c"
  by (auto simp: isDigit_def isSpace_def)

lemma isDigit_valid: "isDigit c \<Longrightarrow> validDigit 10 c"
  by (auto simp: validDigit_def digitOf_def isDigit_def)

lemma showNat_digits: "list_all isDigit (showNat n)"
proof (induction n rule: showNat.induct)
  case (1 n)
  show ?case
  proof (cases "n < 10")
    case True
    then show ?thesis
      by (subst showNat.simps) (simp add: isDigit_digitChar)
  next
    case False
    with 1 show ?thesis
      by (subst showNat.simps) (simp add: isDigit_digitChar)
  qed
qed

lemma showNat_nonempty: "showNat n \<noteq> []"
  by (subst showNat.simps) simp

lemma digitsValue_snoc:
  "digitsValue R acc (xs @ [c]) =
     digitsValue R acc xs * R + (case digitOf c of None \<Rightarrow> 0 | Some d \<Rightarrow> d)"
  by (induction xs arbitrary: acc) simp_all

lemma digitsValue_showNat: "digitsValue 10 0 (showNat n) = n"
proof (induction n rule: showNat.induct)
  case (1 n)
  show ?case
  proof (cases "n < 10")
    case True
    then show ?thesis
      by (subst showNat.simps) (simp add: digitOf_digitChar)
  next
    case False
    with 1 have "digitsValue 10 0 (showNat (n div 10)) = n div 10"
      by simp
    with False show ?thesis
      by (subst showNat.simps) (simp add: digitsValue_snoc digitOf_digitChar)
  qed
qed

lemma parseInt_digits:
  assumes "list_all isDigit ds" and "ds \<noteq> []"
  shows "parseInt ds (Some 10) = Num (int (digitsValue 10 0 ds))"
proof -
  from assms obtain c cs where ds: "ds = c # cs" and c: "isDigit c"
    by (cases ds) auto
  have nosp: "\<not> isSpace c"
    using c by (rule isDigit_not_space)
  have nosign: "c \<noteq> CHR ''-''" "c \<noteq> CHR ''+''"
    using c by (auto simp: isDigit_def code_def)
  have all: "takeWhile (validDigit 10) (c # cs) = c # cs"
    using assms(1) unfolding ds by (auto simp: list_all_iff isDigit_valid)
  show ?thesis
    unfolding ds parseInt_def using nosp nosign all by (simp add: Let_def)
qed

lemma parseInt_minus_digits:
  assumes "list_all isDigit ds" and "ds \<noteq> []"
  shows "parseInt (CHR ''-'' # ds) (Some 10) = Num (- int (digitsValue 10 0 ds))"
proof -
  have all: "takeWhile (validDigit 10) ds = ds"
    using assms(1) by (auto simp: list_all_iff isDigit_valid)
  have "\<not> isSpace CHR ''-''"
    by (simp add: isSpace_def code_def)
  then show ?thesis
    using assms(2) by (simp add: parseInt_def all Let_def)
qed

lemma parseInt_toString: "parseInt (toString (Num i)) (Some 10) = Num i"
proof (cases "i < 0")
  case True
  then show ?thesis
    using parseInt_minus_digits [OF showNat_digits showNat_nonempty, of "nat (- i)"]
    by (simp add: digitsValue_showNat)
next
  case False
  then show ?thesis
    using parseInt_digits [OF showNat_digits showNat_nonempty, of "nat i"]
    by (simp add: digitsValue_showNat)
qed

lemma toString_nonempty: "toString x \<noteq> []"
  by (cases x) (simp_all add: showNat_nonempty)

lemma mapGet_mapSet: "mapGet (mapSet m k v) k' = (if k' = k then Some v else mapGet m k')"
  by (simp add: mapGet_def map_of_mapSet)


lemma flushBatch_cursor [simp]: "currentCursor (flushBatch s) = currentCursor s"
  by (simp add: flushBatch_def clearTimeout_def Let_def split: option.splits)

lemma queuePost_cursor [simp]: "currentCursor (queuePost p s) = currentCursor s"
  by (simp add: queuePost_def setTimeout_def Let_def)

lemma saveCursor_cursor [simp]: "currentCursor (saveCursor c s) = currentCursor s"
  by (simp add: saveCursor_def split: cursorStore.splits)

lemma fireDue_cursor [simp]: "currentCursor (fireDue ts s) = currentCursor s"
  by (induction ts arbitrary: s) (auto simp: fireTimer_def clearTimeout_def)

lemma onMessage_cursor:
  "currentCursor (onMessage data s) =
     (case positionOf data of None \<Rightarrow> currentCursor s | Some t \<Rightarrow> Num t)"
  by (simp add: onMessage_def positionOf_def Let_def split: inbound.splits option.splits)

lemma step_cursor:
  "currentCursor (step e s) =
     (case e of
        Inbound data \<Rightarrow> (case positionOf data of None \<Rightarrow> currentCursor s | Some t \<Rightarrow> Num t)
      | _ \<Rightarrow> currentCursor s)"
  by (cases e) (simp_all add: onMessage_cursor elapse_def onClose_def connectAndProcess_def Let_def)


text \<open>
  Claim C7. When a cursor \<open>C\<close> that was persisted before is loaded at the start of the
  connector, the subscription URL that \<open>connectAndProcess\<close> builds carries the cursor
  \<open>C\<close>. When no cursor is stored, or the store cannot be reached, the connector starts
  from the current time minus 24 hours, in microseconds, and not from the current time;
  the URL carries that cursor. A cursor is a positive timestamp, and for the URL of the
  fallback the clock reads more than a day after the epoch.
\<close>

theorem startTask_resumes_from_cursor:
  "(0 < C \<and> cursorStore s = Reachable m \<longrightarrow>
      loadCursor (saveCursor (Num C) s) = Num C \<and>
      fst (startTask (saveCursor (Num C) s)) =
        JETSTREAM_BASE_URL @ ''&cursor='' @ toString (Num C)) \<and>
   (cursorStore s = Unreachable \<or>
    (cursorStore s = Reachable m \<and> mapGet m CURSOR_KEY = None) \<longrightarrow>
      loadCursor s = Num ((clock s - 86400000) * 1000) \<and>
      loadCursor s \<noteq> Num (clock s * 1000) \<and>
      (86400000 < clock s \<longrightarrow>
         fst (startTask s) =
           JETSTREAM_BASE_URL @ ''&cursor='' @ toString (Num ((clock s - 86400000) * 1000))))"
proof (intro conjI impI)
  assume a: "0 < C \<and> cursorStore s = Reachable m"
  then show load: "loadCursor (saveCursor (Num C) s) = Num C"
    using parseInt_toString [of C] toString_nonempty [of "Num C"]
    by (simp add: loadCursor_def saveCursor_def mapGet_mapSet Let_def del: toString.simps)
  from a show "fst (startTask (saveCursor (Num C) s)) =
      JETSTREAM_BASE_URL @ ''&cursor='' @ toString (Num C)"
    by (simp add: startTask_def connectAndProcess_def connectUrl_def load del: toString.simps)
next
  assume b: "cursorStore s = Unreachable \<or>
    (cursorStore s = Reachable m \<and> mapGet m CURSOR_KEY = None)"
  then show load: "loadCursor s = Num ((clock s - 86400000) * 1000)"
    by (auto simp: loadCursor_def Let_def)
  show "loadCursor s \<noteq> Num (clock s * 1000)"
    unfolding load by simp
  assume "86400000 < clock s"
  then show "fst (startTask s) =
      JETSTREAM_BASE_URL @ ''&cursor='' @ toString (Num ((clock s - 86400000) * 1000))"
    by (simp add: startTask_def connectAndProcess_def connectUrl_def load del: toString.simps)
qed


theorem startTask_resumes_from_cursor_witness:
  "86400000 < clock exampleStart \<and>
   loadCursor (saveCursor (Num 1699999999123456) exampleStart) = Num 1699999999123456 \<and>
   fst (startTask (saveCursor (Num 1699999999123456) exampleStart)) =
     JETSTREAM_BASE_URL @ ''&cursor='' @ toString (Num 1699999999123456) \<and>
   toString (Num 1699999999123456) = ''1699999999123456'' \<and>
   loadCursor exampleStart = Num 1699913600000000 \<and>
   fst (startTask exampleStart) = JETSTREAM_BASE_URL @ ''&cursor=1699913600000000''"
proof -
  have clk: "86400000 < clock exampleStart"
    by (simp add: exampleStart_def initial_def)
  have store: "cursorStore exampleStart = Reachable []"
    by (simp add: exampleStart_def initial_def)
  have none: "mapGet [] CURSOR_KEY = None"
    by (simp add: mapGet_def)
  have val: "(clock exampleStart - 86400000) * 1000 = 1699913600000000"
    by (simp add: exampleStart_def initial_def)
  have str: "toString (Num 1699999999123456) = ''1699999999123456''"
    by (simp add: showNat.simps digitChar_def)
  have str2: "toString (Num 1699913600000000) = ''1699913600000000''"
    by (simp add: showNat.simps digitChar_def)
  note inst = startTask_resumes_from_cursor
    [where s = exampleStart and C = 1699999999123456 and m = "[]"]
  have a: "loadCursor (saveCursor (Num 1699999999123456) exampleStart) = Num 1699999999123456 \<and>
     fst (startTask (saveCursor (Num 1699999999123456) exampleStart)) =
       JETSTREAM_BASE_URL @ ''&cursor='' @ toString (Num 1699999999123456)"
    by (rule mp [OF conjunct1 [OF inst]]) (simp add: store)
  have b0: "loadCursor exampleStart = Num ((clock exampleStart - 86400000) * 1000) \<and>
     loadCursor exampleStart \<noteq> Num (clock exampleStart * 1000) \<and>
     (86400000 < clock exampleStart \<longrightarrow>
        fst (startTask exampleStart) =
          JETSTREAM_BASE_URL @ ''&cursor='' @
            toString (Num ((clock exampleStart - 86400000) * 1000)))"
    by (rule mp [OF conjunct2 [OF inst]]) (simp add: store none)
  have b: "loadCursor exampleStart = Num ((clock exampleStart - 86400000) * 1000) \<and>
     loadCursor exampleStart \<noteq> Num (clock exampleStart * 1000) \<and>
     fst (startTask exampleStart) =
       JETSTREAM_BASE_URL @ ''&cursor='' @ toString (Num ((clock exampleStart - 86400000) * 1000))"
    using b0 clk by blast
  from b have b': "loadCursor exampleStart = Num 1699913600000000 \<and>
     loadCursor exampleStart \<noteq> Num (clock exampleStart * 1000) \<and>
     fst (startTask exampleStart) = JETSTREAM_BASE_URL @ ''&cursor='' @ ''1699913600000000''"
    unfolding val str2 .
  then have b'': "loadCursor exampleStart = Num 1699913600000000 \<and>
     fst (startTask exampleStart) = JETSTREAM_BASE_URL @ ''&cursor=1699913600000000''"
    by simp
  from clk a b'' str show ?thesis
    by (intro conjI) (elim conjE, assumption)+
qed


lemma queueInv_timers:
  assumes "queueInv s"
  shows "(postBatch s = [] \<and> batchTimer s = None \<and> timers s = []) \<or>
         (\<exists>h due. postBatch s \<noteq> [] \<and> batchTimer s = Some h \<and> timers s = [(h, due)] \<and>
            clock s < due \<and> due \<le> clock s + BATCH_INTERVAL_MS)"
proof (cases "batchTimer s")
  case None
  with assms show ?thesis by (simp add: queueInv_def)
next
  case (Some h)
  with assms have ne: "postBatch s \<noteq> []" and m: "map fst (timers s) = [h]"
    and b: "list_all (\<lambda>(h, due). clock s < due \<and> due \<le> clock s + BATCH_INTERVAL_MS) (timers s)"
    by (simp_all add: queueInv_def)
  from m obtain due where t: "timers s = [(h, due)]"
    by (cases "timers s") auto
  with b have "clock s < due" "due \<le> clock s + BATCH_INTERVAL_MS"
    by simp_all
  with ne Some t show ?thesis by simp
qed

lemma queueInv_initial: "queueInv (initial now store)"
  by (simp add: queueInv_def initial_def BATCH_SIZE_def)

lemma queuePost_full:
  assumes "queueInv s" and "length (postBatch s) + 1 = BATCH_SIZE"
  shows "postBatch (queuePost p s) = [] \<and> sent (queuePost p s) = sent s @ [postBatch s @ [p]] \<and>
         timers (queuePost p s) = [] \<and> batchTimer (queuePost p s) = None \<and>
         clock (queuePost p s) = clock s"
  using queueInv_timers [OF assms(1)] assms(2)
  by (auto simp: queuePost_def flushBatch_def clearTimeout_def Let_def BATCH_SIZE_def)

lemma queuePost_below:
  assumes "queueInv s" and "length (postBatch s) + 1 < BATCH_SIZE"
  shows "postBatch (queuePost p s) = postBatch s @ [p] \<and> sent (queuePost p s) = sent s \<and>
         clock (queuePost p s) = clock s \<and>
         (\<exists>h due. timers (queuePost p s) = [(h, due)] \<and> batchTimer (queuePost p s) = Some h \<and>
            clock s < due \<and> due \<le> clock s + BATCH_INTERVAL_MS)"
  using queueInv_timers [OF assms(1)] assms(2)
  by (auto simp: queuePost_def setTimeout_def Let_def BATCH_SIZE_def BATCH_INTERVAL_MS_def)

lemma queueInv_queuePost:
  assumes "queueInv s"
  shows "queueInv (queuePost p s)"
proof (cases "length (postBatch s) + 1 = BATCH_SIZE")
  case True
  from queuePost_full [OF assms True, of p] show ?thesis
    by (simp add: queueInv_def BATCH_SIZE_def)
next
  case False
  with assms have "length (postBatch s) + 1 < BATCH_SIZE"
    by (simp add: queueInv_def)
  from queuePost_below [OF assms this, of p] this show ?thesis
    by (auto simp: queueInv_def)
qed

lemma elapse_due:
  assumes "queueInv s" and "timers s = [(h, due)]" and "due \<le> clock s + int d"
  shows "postBatch (elapse d s) = [] \<and> sent (elapse d s) = sent s @ [postBatch s] \<and>
         timers (elapse d s) = [] \<and> batchTimer (elapse d s) = None \<and>
         clock (elapse d s) = clock s + int d"
  using queueInv_timers [OF assms(1)] assms(2,3)
  by (auto simp: elapse_def fireTimer_def flushBatch_def clearTimeout_def Let_def)

lemma elapse_not_due:
  assumes "timers s = [(h, due)]" and "clock s + int d < due"
  shows "elapse d s = s\<lparr>clock := clock s + int d\<rparr>"
  using assms by (simp add: elapse_def Let_def)

lemma elapse_idle:
  assumes "timers s = []"
  shows "elapse d s = s\<lparr>clock := clock s + int d\<rparr>"
  using assms by (simp add: elapse_def Let_def)

lemma queueInv_elapse:
  assumes "queueInv s"
  shows "queueInv (elapse d s)"
proof -
  from queueInv_timers [OF assms] show ?thesis
  proof (elim disjE exE conjE)
    assume "postBatch s = []" "batchTimer s = None" "timers s = []"
    with assms show ?thesis
      by (simp add: elapse_idle queueInv_def)
  next
    fix h due
    assume a: "postBatch s \<noteq> []" "batchTimer s = Some h" "timers s = [(h, due)]"
      "clock s < due" "due \<le> clock s + BATCH_INTERVAL_MS"
    show ?thesis
    proof (cases "due \<le> clock s + int d")
      case True
      from elapse_due [OF assms a(3) True] show ?thesis
        by (simp add: queueInv_def BATCH_SIZE_def)
    next
      case False
      then have "elapse d s = s\<lparr>clock := clock s + int d\<rparr>"
        using elapse_not_due [OF a(3)] by simp
      with assms a False show ?thesis
        by (simp add: queueInv_def)
    qed
  qed
qed

lemma queueInv_flushBatch:
  assumes "queueInv s"
  shows "queueInv (flushBatch s)"
  using queueInv_timers [OF assms]
  by (auto simp: queueInv_def flushBatch_def clearTimeout_def Let_def BATCH_SIZE_def)

lemma queueInv_saveCursor: "queueInv (saveCursor c s) = queueInv s"
  by (simp add: saveCursor_def queueInv_def split: cursorStore.splits)

lemma queueInv_step:
  assumes "queueInv s"
  shows "queueInv (step e s)"
proof (cases e)
  case (Inbound data)
  have "queueInv (s\<lparr>currentCursor := c, messageCount := n\<rparr>)" for c n
    using assms by (simp add: queueInv_def)
  then have "queueInv (case data of
                  Unparseable \<Rightarrow> s
                | Message rawMsg \<Rightarrow>
                    (case time_us rawMsg of
                       None \<Rightarrow> s
                     | Some t \<Rightarrow>
                         if t = 0 then s
                         else
                           (let s' = s\<lparr>currentCursor := Num t, messageCount := messageCount s + 1\<rparr>
                            in if messageCount s' mod 1000 = 0
                               then saveCursor (currentCursor s') s' else s')))"
    using assms by (simp add: Let_def queueInv_saveCursor split: inbound.splits option.splits)
  then show ?thesis
    using Inbound by (simp add: onMessage_def Let_def queueInv_queuePost split: option.splits)
next
  case (Elapse d)
  with assms show ?thesis by (simp add: queueInv_elapse)
next
  case Close
  with assms show ?thesis
    by (simp add: onClose_def Let_def queueInv_flushBatch queueInv_saveCursor)
next
  case Connect
  with assms show ?thesis by (simp add: connectAndProcess_def queueInv_def)
qed

lemma queueInv_run: "queueInv s \<Longrightarrow> queueInv (run es s)"
  by (induction es arbitrary: s) (simp_all add: queueInv_step del: step.simps)

lemma queuePost_exactly_full:
  assumes "queueInv s" and "length (postBatch s) + length ps < BATCH_SIZE"
  shows "queueInv (foldl (\<lambda>s p. queuePost p s) s ps) \<and>
         postBatch (foldl (\<lambda>s p. queuePost p s) s ps) = postBatch s @ ps \<and>
         sent (foldl (\<lambda>s p. queuePost p s) s ps) = sent s \<and>
         clock (foldl (\<lambda>s p. queuePost p s) s ps) = clock s"
  using assms
proof (induction ps arbitrary: s)
  case Nil
  then show ?case by simp
next
  case (Cons p ps)
  from Cons.prems have below: "length (postBatch s) + 1 < BATCH_SIZE"
    by simp
  note q = queuePost_below [OF Cons.prems(1) below, of p]
  have inv: "queueInv (queuePost p s)"
    using Cons.prems(1) by (rule queueInv_queuePost)
  have len: "length (postBatch (queuePost p s)) + length ps < BATCH_SIZE"
    using q Cons.prems(2) by simp
  from Cons.IH [OF inv len] q show ?case
    by simp
qed

text \<open>
  Claim C8. The batch queue flushes on whichever trigger comes first. In every state
  that the connector reaches: at most one flush timeout is booked, and one is booked
  exactly while the batch holds posts; the post that brings the batch to the maximum
  size of 100 is flushed with the batch at once, in the same step, and the timeout is
  cancelled; a post that leaves the batch below the maximum flushes nothing and leaves
  one timeout booked, due within the batch interval; a batch with posts is flushed when
  its timeout comes due, and not before. A fresh queue that takes 100 posts with no time
  passing has flushed them as one batch and holds no timeout.
\<close>

theorem batch_flushes_on_size_or_timer:
  "(let s = run es (initial now store) in
         length (timers s) \<le> 1 \<and> length (postBatch s) < BATCH_SIZE \<and>
         ((postBatch s = []) = (timers s = [])) \<and>
         (length (postBatch s) + 1 = BATCH_SIZE \<longrightarrow>
            postBatch (queuePost p s) = [] \<and>
            sent (queuePost p s) = sent s @ [postBatch s @ [p]] \<and>
            timers (queuePost p s) = [] \<and> clock (queuePost p s) = clock s) \<and>
         (length (postBatch s) + 1 < BATCH_SIZE \<longrightarrow>
            postBatch (queuePost p s) = postBatch s @ [p] \<and> sent (queuePost p s) = sent s \<and>
            (\<exists>h due. timers (queuePost p s) = [(h, due)] \<and>
               clock s < due \<and> due \<le> clock s + BATCH_INTERVAL_MS)) \<and>
         (postBatch s \<noteq> [] \<longrightarrow>
            (\<exists>h due. timers s = [(h, due)] \<and> clock s < due \<and>
               due \<le> clock s + BATCH_INTERVAL_MS \<and>
               (due \<le> clock s + int d \<longrightarrow>
                  postBatch (elapse d s) = [] \<and> sent (elapse d s) = sent s @ [postBatch s] \<and>
                  timers (elapse d s) = []) \<and>
               (clock s + int d < due \<longrightarrow>
                  postBatch (elapse d s) = postBatch s \<and> sent (elapse d s) = sent s \<and>
                  timers (elapse d s) = timers s))) \<and>
         (length ps = BATCH_SIZE \<longrightarrow>
            sent (foldl (\<lambda>s p. queuePost p s) (initial now store) ps) = [ps] \<and>
            postBatch (foldl (\<lambda>s p. queuePost p s) (initial now store) ps) = [] \<and>
            timers (foldl (\<lambda>s p. queuePost p s) (initial now store) ps) = [] \<and>
            clock (foldl (\<lambda>s p. queuePost p s) (initial now store) ps) = now))"
proof -
  define s where "s = run es (initial now store)"
  have inv: "queueInv s"
    unfolding s_def by (rule queueInv_run [OF queueInv_initial])
  note shape = queueInv_timers [OF inv]
  have one: "length (timers s) \<le> 1"
    using shape by auto
  have small: "length (postBatch s) < BATCH_SIZE"
    using inv by (simp add: queueInv_def)
  have iff: "(postBatch s = []) = (timers s = [])"
    using shape by auto
  have full: "length (postBatch s) + 1 = BATCH_SIZE \<longrightarrow>
            postBatch (queuePost p s) = [] \<and>
            sent (queuePost p s) = sent s @ [postBatch s @ [p]] \<and>
            timers (queuePost p s) = [] \<and> clock (queuePost p s) = clock s"
    using queuePost_full [OF inv, of p] by simp
  have below: "length (postBatch s) + 1 < BATCH_SIZE \<longrightarrow>
            postBatch (queuePost p s) = postBatch s @ [p] \<and> sent (queuePost p s) = sent s \<and>
            (\<exists>h due. timers (queuePost p s) = [(h, due)] \<and>
               clock s < due \<and> due \<le> clock s + BATCH_INTERVAL_MS)"
    using queuePost_below [OF inv, of p] by auto
  have timer: "postBatch s \<noteq> [] \<longrightarrow>
            (\<exists>h due. timers s = [(h, due)] \<and> clock s < due \<and>
               due \<le> clock s + BATCH_INTERVAL_MS \<and>
               (due \<le> clock s + int d \<longrightarrow>
                  postBatch (elapse d s) = [] \<and> sent (elapse d s) = sent s @ [postBatch s] \<and>
                  timers (elapse d s) = []) \<and>
               (clock s + int d < due \<longrightarrow>
                  postBatch (elapse d s) = postBatch s \<and> sent (elapse d s) = sent s \<and>
                  timers (elapse d s) = timers s))"
  proof
    assume "postBatch s \<noteq> []"
    with shape obtain h due where t: "timers s = [(h, due)]" and lo: "clock s < due"
      and hi: "due \<le> clock s + BATCH_INTERVAL_MS"
      by auto
    have "due \<le> clock s + int d \<longrightarrow>
                  postBatch (elapse d s) = [] \<and> sent (elapse d s) = sent s @ [postBatch s] \<and>
                  timers (elapse d s) = []"
      using elapse_due [OF inv t, of d] by simp
    moreover have "clock s + int d < due \<longrightarrow>
                  postBatch (elapse d s) = postBatch s \<and> sent (elapse d s) = sent s \<and>
                  timers (elapse d s) = timers s"
      using elapse_not_due [OF t, of d] by simp
    ultimately show "\<exists>h due. timers s = [(h, due)] \<and> clock s < due \<and>
               due \<le> clock s + BATCH_INTERVAL_MS \<and>
               (due \<le> clock s + int d \<longrightarrow>
                  postBatch (elapse d s) = [] \<and> sent (elapse d s) = sent s @ [postBatch s] \<and>
                  timers (elapse d s) = []) \<and>
               (clock s + int d < due \<longrightarrow>
                  postBatch (elapse d s) = postBatch s \<and> sent (elapse d s) = sent s \<and>
                  timers (elapse d s) = timers s)"
      using t lo hi by blast
  qed
  have burst: "length ps = BATCH_SIZE \<longrightarrow>
            sent (foldl (\<lambda>s p. queuePost p s) (initial now store) ps) = [ps] \<and>
            postBatch (foldl (\<lambda>s p. queuePost p s) (initial now store) ps) = [] \<and>
            timers (foldl (\<lambda>s p. queuePost p s) (initial now store) ps) = [] \<and>
            clock (foldl (\<lambda>s p. queuePost p s) (initial now store) ps) = now"
  proof
    assume len: "length ps = BATCH_SIZE"
    then have "ps \<noteq> []"
      by (auto simp: BATCH_SIZE_def)
    then obtain qs q where ps: "ps = qs @ [q]"
      by (metis rev_exhaust)
    let ?s0 = "initial now store"
    let ?s1 = "foldl (\<lambda>s p. queuePost p s) ?s0 qs"
    have l0: "length (postBatch ?s0) + length qs < BATCH_SIZE"
      using len ps by (simp add: initial_def)
    note pre = queuePost_exactly_full [OF queueInv_initial l0]
    have l1: "length (postBatch ?s1) + 1 = BATCH_SIZE"
      using pre len ps by (simp add: initial_def)
    from queuePost_full [OF _ l1, of q] pre
    show "sent (foldl (\<lambda>s p. queuePost p s) ?s0 ps) = [ps] \<and>
            postBatch (foldl (\<lambda>s p. queuePost p s) ?s0 ps) = [] \<and>
            timers (foldl (\<lambda>s p. queuePost p s) ?s0 ps) = [] \<and>
            clock (foldl (\<lambda>s p. queuePost p s) ?s0 ps) = now"
      unfolding ps by (simp add: initial_def)
  qed
  from one small iff full below timer burst show ?thesis
    unfolding Let_def s_def [symmetric] by (intro conjI)
qed


theorem batch_flushes_on_size_or_timer_witness:
  "postBatch (run [Inbound (examplePost 1700000000000100 ''hello world'')] exampleStart) \<noteq> [] \<and>
   postBatch (elapse 500
     (run [Inbound (examplePost 1700000000000100 ''hello world'')] exampleStart)) = [] \<and>
   sent (elapse 500
     (run [Inbound (examplePost 1700000000000100 ''hello world'')] exampleStart)) =
     sent (run [Inbound (examplePost 1700000000000100 ''hello world'')] exampleStart) @
     [postBatch (run [Inbound (examplePost 1700000000000100 ''hello world'')] exampleStart)] \<and>
   length (replicate 100 (the (parseJetStreamMessage (examplePost 1700000000000100 ''hello world'')))) = BATCH_SIZE \<and>
   sent (foldl (\<lambda>s p. queuePost p s) exampleStart (replicate 100 (the (parseJetStreamMessage (examplePost 1700000000000100 ''hello world''))))) = [replicate 100 (the (parseJetStreamMessage (examplePost 1700000000000100 ''hello world'')))]"
proof -
  let ?es = "[Inbound (examplePost 1700000000000100 ''hello world'')]"
  let ?s = "run ?es exampleStart"
  let ?p = "the (parseJetStreamMessage (examplePost 1700000000000100 ''hello world''))"
  note inst = batch_flushes_on_size_or_timer
    [of "?es" 1700000000000 "Reachable []" "?p" 500 "replicate 100 ?p",
     unfolded Let_def, folded exampleStart_def]
  have ne: "postBatch ?s \<noteq> []"
    by (simp add: onMessage_def parseJetStreamMessage_def examplePost_def queuePost_def
        setTimeout_def exampleStart_def initial_def BATCH_SIZE_def Let_def)
  have len: "length (replicate 100 (the (parseJetStreamMessage (examplePost 1700000000000100 ''hello world'')))) = BATCH_SIZE"
    by (simp add: BATCH_SIZE_def)
  from inst ne obtain h due where due: "due \<le> clock ?s + BATCH_INTERVAL_MS"
    and fl: "due \<le> clock ?s + int 500 \<longrightarrow>
       postBatch (elapse 500 ?s) = [] \<and> sent (elapse 500 ?s) = sent ?s @ [postBatch ?s] \<and>
       timers (elapse 500 ?s) = []"
    by blast
  from due have "due \<le> clock ?s + int 500"
    by (simp add: BATCH_INTERVAL_MS_def)
  with fl have flushed: "postBatch (elapse 500 ?s) = [] \<and>
      sent (elapse 500 ?s) = sent ?s @ [postBatch ?s]"
    by blast
  from inst len have burst: "sent (foldl (\<lambda>s p. queuePost p s) exampleStart (replicate 100 (the (parseJetStreamMessage (examplePost 1700000000000100 ''hello world''))))) =
      [replicate 100 (the (parseJetStreamMessage (examplePost 1700000000000100 ''hello world'')))]"
    by blast
  from ne flushed len burst show ?thesis
    by (intro conjI) (elim conjE, assumption)+
qed


lemma cursors_sorted:
  "currentCursor s = Num c \<Longrightarrow> sorted (c # positions es) \<Longrightarrow>
   \<exists>cs. cursors es s = map Num cs \<and> sorted (c # cs)"
proof (induction es arbitrary: s c)
  case Nil
  then show ?case by simp
next
  case (Cons e es)
  note sc = step_cursor [of e s]
  obtain c' where c': "currentCursor (step e s) = Num c'" and le: "c \<le> c'"
    and rest: "sorted (c' # positions es)"
  proof (cases e)
    case (Inbound data)
    show ?thesis
    proof (cases "positionOf data")
      case None
      with Inbound Cons.prems sc that [of c] show ?thesis
        by (simp del: step.simps)
    next
      case (Some t)
      with Inbound Cons.prems sc that [of t] show ?thesis
        by (simp del: step.simps)
    qed
  next
    case (Elapse d)
    with Cons.prems sc that [of c] show ?thesis by (simp del: step.simps)
  next
    case Close
    with Cons.prems sc that [of c] show ?thesis by (simp del: step.simps)
  next
    case Connect
    with Cons.prems sc that [of c] show ?thesis by (simp del: step.simps)
  qed
  from Cons.IH [OF c' rest] obtain cs
    where cs: "cursors es (step e s) = map Num cs" and srt: "sorted (c' # cs)"
    by blast
  have "cursors (e # es) s = map Num (c' # cs)"
    using c' cs by (simp del: step.simps)
  moreover have "sorted (c # c' # cs)"
    using le srt by auto
  ultimately show ?case by blast
qed

lemma sorted_wrt_numLe: "sorted_wrt numLe (map Num cs) = sorted cs"
  by (simp add: sorted_wrt_map)

text \<open>
  Claim C9, as the code has it. Handling a message that carries a position sets the
  cursor to that position, whatever the cursor was; every other message leaves the cursor
  as it is. So over a run of events the cursor never decreases when the positions arrive
  in non-decreasing order, starting at or above the cursor.
\<close>

theorem cursor_follows_last_position:
  "currentCursor (onMessage data s) =
     (case positionOf data of None \<Rightarrow> currentCursor s | Some t \<Rightarrow> Num t) \<and>
   (currentCursor s = Num c \<and> sorted (c # positions es) \<longrightarrow>
      sorted_wrt numLe (Num c # cursors es s))"
proof (intro conjI impI)
  show "currentCursor (onMessage data s) =
     (case positionOf data of None \<Rightarrow> currentCursor s | Some t \<Rightarrow> Num t)"
    by (rule onMessage_cursor)
next
  assume "currentCursor s = Num c \<and> sorted (c # positions es)"
  then obtain cs where "cursors es s = map Num cs" and "sorted (c # cs)"
    using cursors_sorted by blast
  then show "sorted_wrt numLe (Num c # cursors es s)"
    using sorted_wrt_numLe [of "c # cs"] by simp
qed


theorem cursor_follows_last_position_witness:
  "currentCursor exampleStart = Num 0 \<and>
   sorted (0 # positions [Inbound (examplePost 1700000000000100 ''hello world''),
                          Elapse 10, Inbound Unparseable,
                          Inbound (examplePost 1700000000000150 ''more words'')]) \<and>
   sorted_wrt numLe
     (Num 0 # cursors [Inbound (examplePost 1700000000000100 ''hello world''),
                       Elapse 10, Inbound Unparseable,
                       Inbound (examplePost 1700000000000150 ''more words'')] exampleStart)"
proof -
  let ?es = "[Inbound (examplePost 1700000000000100 ''hello world''),
              Elapse 10, Inbound Unparseable,
              Inbound (examplePost 1700000000000150 ''more words'')]"
  have c: "currentCursor exampleStart = Num 0"
    by (simp add: exampleStart_def initial_def)
  have p: "sorted (0 # positions ?es)"
    by (simp add: positionOf_def examplePost_def)
  from cursor_follows_last_position [of Unparseable exampleStart 0 ?es] c p
  have "sorted_wrt numLe (Num 0 # cursors ?es exampleStart)"
    by blast
  with c p show ?thesis
    by (intro conjI)
qed

text \<open>
  Claim C9, as stated, fails: the cursor stands at 1700000000000100 after one message,
  and a second message with the smaller position 1700000000000050 moves it back.
\<close>

theorem cursor_regresses_counterexample:
  "currentCursor (run [Inbound (examplePost 1700000000000100 ''hello world'')] exampleStart)
     = Num 1700000000000100 \<and>
   currentCursor (run [Inbound (examplePost 1700000000000100 ''hello world''),
                       Inbound (examplePost 1700000000000050 ''earlier words'')] exampleStart)
     = Num 1700000000000050 \<and>
   \<not> numLe
       (currentCursor (run [Inbound (examplePost 1700000000000100 ''hello world'')] exampleStart))
       (currentCursor (run [Inbound (examplePost 1700000000000100 ''hello world''),
                            Inbound (examplePost 1700000000000050 ''earlier words'')]
                         exampleStart))"
  by (simp add: onMessage_cursor positionOf_def examplePost_def)


text \<open>
  Claim C1, on the code. A first search for \<open>Cat\<close> over a given hour is answered from
  the store, with the fields \<open>success\<close>, \<open>word\<close>, \<open>from\<close>, \<open>to\<close> and \<open>data\<close>, and
  fills the cache. The same search ten seconds later is answered from the cache: it
  carries the same data array, but of the fields only \<open>success\<close>, \<open>cached\<close> and
  \<open>data\<close>; \<open>word\<close>, \<open>from\<close> and \<open>to\<close> are gone.
\<close>

theorem search_cache_hit_drops_fields:
  "fst (search exampleEnv [] (Some ''Cat'')
          (Some ''2024-01-01T00:00:00.000Z'') (Some ''2024-01-01T01:00:00.000Z'')) =
     ok [(''success'', JBool True), (''word'', JStr ''cat''),
         (''from'', JStr ''2024-01-01T00:00:00.000Z''),
         (''to'', JStr ''2024-01-01T01:00:00.000Z''),
         (''data'', JArr [JObj [(''interval'', JNum 1704070780), (''count'', JNum 4)],
                          JObj [(''interval'', JNum 1704070790), (''count'', JNum 5)]])] \<and>
   fst (search (exampleEnv\<lparr>envNow := 1704070810000\<rparr>)
          (snd (search exampleEnv [] (Some ''Cat'')
                  (Some ''2024-01-01T00:00:00.000Z'') (Some ''2024-01-01T01:00:00.000Z'')))
          (Some ''Cat'') (Some ''2024-01-01T00:00:00.000Z'') (Some ''2024-01-01T01:00:00.000Z'')) =
     ok [(''success'', JBool True), (''cached'', JBool True),
         (''data'', JArr [JObj [(''interval'', JNum 1704070780), (''count'', JNum 4)],
                          JObj [(''interval'', JNum 1704070790), (''count'', JNum 5)]])]"
proof -
  let ?w = "Some ''Cat''"
  let ?f = "Some ''2024-01-01T00:00:00.000Z''"
  let ?t = "Some ''2024-01-01T01:00:00.000Z''"
  let ?rows = "JArr [JObj [(''interval'', JNum 1704070780), (''count'', JNum 4)],
                     JObj [(''interval'', JNum 1704070790), (''count'', JNum 5)]]"
  let ?key = "''trends:search:cat:2024-01-01T00:00:00.000Z:2024-01-01T01:00:00.000Z''"
  have lower: "toLowerCase ''Cat'' = ''cat''"
    by code_simp
  have rows: "JArr (seriesQuery exampleTable ''cat'' 1704067200000 1704070800000) = ?rows"
    by (simp add: seriesQuery_def exampleTable_def formatDateForCH_def)
  have first: "search exampleEnv [] ?w ?f ?t =
     (ok [(''success'', JBool True), (''word'', JStr ''cat''),
          (''from'', JStr ''2024-01-01T00:00:00.000Z''),
          (''to'', JStr ''2024-01-01T01:00:00.000Z''), (''data'', ?rows)],
      [(?key, ?rows, 1704070830000)])"
    by (simp add: search_def searchKey_def dateParam_def exampleEnv_def cacheHit_def
        cacheGet_def cacheSet_def mapGet_def lower rows Let_def)
  have second: "fst (search (exampleEnv\<lparr>envNow := 1704070810000\<rparr>)
        [(?key, ?rows, 1704070830000)] ?w ?f ?t) =
     ok [(''success'', JBool True), (''cached'', JBool True), (''data'', ?rows)]"
    by (simp add: search_def searchKey_def dateParam_def exampleEnv_def cacheHit_def
        cacheGet_def mapGet_def lower Let_def)
  show ?thesis
    unfolding first by (simp add: second)
qed


lemma map_of_assign:
  "map_of (assign obj k v) w =
     (if w = k \<and> k \<noteq> ''__proto__'' then Some v else map_of obj w)"
  by (simp add: assign_def map_of_mapSet)

lemma map_of_compareResults:
  "map_of (compareResults table f t ws results) w =
     (if w \<in> set ws \<and> w \<noteq> ''__proto__'' then Some (JArr (seriesQuery table w f t))
      else map_of results w)"
  by (induction ws arbitrary: results) (auto simp: map_of_assign)

lemma spread_success:
  "spread [(''success'', JBool True)]
     (JObj [(''words'', a), (''from'', b), (''to'', c), (''data'', d)]) =
   [(''success'', JBool True), (''words'', a), (''from'', b), (''to'', c), (''data'', d)]"
  by (simp add: spread_def spreadFields_def)

lemma compare_fresh:
  assumes "wordsParam = Some wp" and "1 \<le> length (cleanWords wp)"
    and "length (cleanWords wp) \<le> 10" and "envCacheDown e = None"
    and "dateParam e fromParam (envNow e - 3600000) = Date a"
    and "dateParam e toParam (envNow e) = Date b"
    and "cacheHit (envNow e) c (compareKey e (cleanWords wp) a b) = None"
    and "envStore e = StoreUp table"
  shows "fst (compare e c wordsParam fromParam toParam) =
     ok [(''success'', JBool True), (''words'', JArr (map JStr (cleanWords wp))),
         (''from'', JStr (envToISOString e a)), (''to'', JStr (envToISOString e b)),
         (''data'', JObj (compareResults table a b (cleanWords wp) []))]"
proof -
  from assms(2) have ne: "cleanWords wp \<noteq> []"
    by auto
  then have "wp \<noteq> []"
    by (auto simp: cleanWords_def trim_def toLowerCase_def)
  with assms ne show ?thesis
    by (simp add: compare_def Let_def spread_success)
qed

lemma compare_not_400:
  assumes "wordsParam = Some wp" and "1 \<le> length (cleanWords wp)"
    and "length (cleanWords wp) \<le> 10"
  shows "status (fst (compare e c wordsParam fromParam toParam)) \<noteq> 400"
proof -
  from assms(2) have ne: "cleanWords wp \<noteq> []"
    by auto
  then have "wp \<noteq> []"
    by (auto simp: cleanWords_def trim_def toLowerCase_def)
  with assms ne show ?thesis
    by (auto simp: compare_def Let_def ok_def serverError_def
        split: option.splits date.splits store.splits)
qed

text \<open>
  What the compare endpoint does. It answers with status 400 when the words parameter
  is missing or empty, when it yields no word that is not empty, and when the cleaned
  word list has more than 10 entries; none of these touches the cache. For 1 to 10 words
  it does not answer 400: when the cache and the store are up, the dates are valid and
  the cache holds no answer, it answers 200, and the data maps every word of the list
  other than \<open>__proto__\<close>, and nothing else, to the series that the query of that word
  alone gives.
\<close>

lemma compare_answers:
  "(wordsParam = None \<or> wordsParam = Some [] \<longrightarrow>
      compare e c wordsParam fromParam toParam = (badRequest ''words parameter is required'', c)) \<and>
   (wordsParam = Some wp \<and> wp \<noteq> [] \<and> cleanWords wp = [] \<longrightarrow>
      compare e c wordsParam fromParam toParam = (badRequest ''At least one word is required'', c)) \<and>
   (wordsParam = Some wp \<and> 10 < length (cleanWords wp) \<longrightarrow>
      compare e c wordsParam fromParam toParam = (badRequest ''Maximum 10 words allowed'', c)) \<and>
   status (badRequest msg) = 400 \<and>
   (wordsParam = Some wp \<and> 1 \<le> length (cleanWords wp) \<and> length (cleanWords wp) \<le> 10 \<longrightarrow>
      status (fst (compare e c wordsParam fromParam toParam)) \<noteq> 400 \<and>
      (envCacheDown e = None \<and> dateParam e fromParam (envNow e - 3600000) = Date a \<and>
       dateParam e toParam (envNow e) = Date b \<and>
       cacheHit (envNow e) c (compareKey e (cleanWords wp) a b) = None \<and>
       envStore e = StoreUp table \<longrightarrow>
         status (fst (compare e c wordsParam fromParam toParam)) = 200 \<and>
         (\<exists>results. field ''data'' (body (fst (compare e c wordsParam fromParam toParam))) =
              Some (JObj results) \<and>
            (\<forall>w. map_of results w =
               (if w \<in> set (cleanWords wp) \<and> w \<noteq> ''__proto__''
                then Some (JArr (seriesQuery table w a b)) else None)))))"
proof (intro conjI impI)
  assume "wordsParam = None \<or> wordsParam = Some []"
  then show "compare e c wordsParam fromParam toParam =
      (badRequest ''words parameter is required'', c)"
    by (auto simp: compare_def)
next
  assume "wordsParam = Some wp \<and> wp \<noteq> [] \<and> cleanWords wp = []"
  then show "compare e c wordsParam fromParam toParam =
      (badRequest ''At least one word is required'', c)"
    by (simp add: compare_def Let_def)
next
  assume a: "wordsParam = Some wp \<and> 10 < length (cleanWords wp)"
  then have ne: "cleanWords wp \<noteq> []"
    by auto
  then have "wp \<noteq> []"
    by (auto simp: cleanWords_def trim_def toLowerCase_def)
  with a ne show "compare e c wordsParam fromParam toParam =
      (badRequest ''Maximum 10 words allowed'', c)"
    by (simp add: compare_def Let_def)
next
  show "status (badRequest msg) = 400"
    by (simp add: badRequest_def)
next
  assume "wordsParam = Some wp \<and> 1 \<le> length (cleanWords wp) \<and> length (cleanWords wp) \<le> 10"
  then show "status (fst (compare e c wordsParam fromParam toParam)) \<noteq> 400"
    using compare_not_400 by blast
next
  assume w: "wordsParam = Some wp \<and> 1 \<le> length (cleanWords wp) \<and> length (cleanWords wp) \<le> 10"
    and u: "envCacheDown e = None \<and> dateParam e fromParam (envNow e - 3600000) = Date a \<and>
       dateParam e toParam (envNow e) = Date b \<and>
       cacheHit (envNow e) c (compareKey e (cleanWords wp) a b) = None \<and>
       envStore e = StoreUp table"
  from w u have fresh: "fst (compare e c wordsParam fromParam toParam) =
     ok [(''success'', JBool True), (''words'', JArr (map JStr (cleanWords wp))),
         (''from'', JStr (envToISOString e a)), (''to'', JStr (envToISOString e b)),
         (''data'', JObj (compareResults table a b (cleanWords wp) []))]"
    using compare_fresh by blast
  then show "status (fst (compare e c wordsParam fromParam toParam)) = 200"
    by (simp add: ok_def)
  have "field ''data'' (body (fst (compare e c wordsParam fromParam toParam))) =
      Some (JObj (compareResults table a b (cleanWords wp) []))"
    unfolding fresh by (simp add: ok_def field_def)
  moreover have "\<forall>w. map_of (compareResults table a b (cleanWords wp) []) w =
      (if w \<in> set (cleanWords wp) \<and> w \<noteq> ''__proto__''
       then Some (JArr (seriesQuery table w a b)) else None)"
    by (simp add: map_of_compareResults)
  ultimately show "\<exists>results. field ''data'' (body (fst (compare e c wordsParam fromParam toParam))) =
              Some (JObj results) \<and>
            (\<forall>w. map_of results w =
               (if w \<in> set (cleanWords wp) \<and> w \<noteq> ''__proto__''
                then Some (JArr (seriesQuery table w a b)) else None))"
    by blast
qed

text \<open>
  Claim C5, on the code. A request to compare the one word \<open>__proto__\<close> is a valid
  request of one word, and the store holds a series for that word. The endpoint answers
  200, but its data is the empty object: the word is not mapped to its series.
\<close>

theorem compare_proto_word_unmapped:
  "cleanWords ''__proto__'' = [''__proto__''] \<and>
   seriesQuery [\<lparr>trendWord = ''__proto__'', interval = 1704070780, totalCount = 3\<rparr>]
       ''__proto__'' 1704067200000 1704070800000 =
     [JObj [(''interval'', JNum 1704070780), (''count'', JNum 3)]] \<and>
   fst (compare
          (exampleEnv\<lparr>envStore :=
             StoreUp [\<lparr>trendWord = ''__proto__'', interval = 1704070780, totalCount = 3\<rparr>]\<rparr>)
          [] (Some ''__proto__'')
          (Some ''2024-01-01T00:00:00.000Z'') (Some ''2024-01-01T01:00:00.000Z'')) =
     ok [(''success'', JBool True), (''words'', JArr [JStr ''__proto__'']),
         (''from'', JStr ''2024-01-01T00:00:00.000Z''),
         (''to'', JStr ''2024-01-01T01:00:00.000Z''),
         (''data'', JObj [])]"
proof -
  let ?table = "[\<lparr>trendWord = ''__proto__'', interval = 1704070780, totalCount = 3\<rparr>]"
  let ?e = "exampleEnv\<lparr>envStore := StoreUp ?table\<rparr>"
  let ?f = "Some ''2024-01-01T00:00:00.000Z''"
  let ?t = "Some ''2024-01-01T01:00:00.000Z''"
  have words: "cleanWords ''__proto__'' = [''__proto__'']"
    by code_simp
  have series: "seriesQuery ?table ''__proto__'' 1704067200000 1704070800000 =
      [JObj [(''interval'', JNum 1704070780), (''count'', JNum 3)]]"
    by (simp add: seriesQuery_def formatDateForCH_def)
  have len: "1 \<le> length (cleanWords ''__proto__'')" "length (cleanWords ''__proto__'') \<le> 10"
    unfolding words by simp_all
  have up: "envCacheDown ?e = None"
    "dateParam ?e ?f (envNow ?e - 3600000) = Date 1704067200000"
    "dateParam ?e ?t (envNow ?e) = Date 1704070800000"
    "cacheHit (envNow ?e) [] (compareKey ?e (cleanWords ''__proto__'') 1704067200000 1704070800000) = None"
    "envStore ?e = StoreUp ?table"
    by (simp_all add: exampleEnv_def dateParam_def cacheHit_def cacheGet_def mapGet_def)
  have iso: "envToISOString ?e 1704067200000 = ''2024-01-01T00:00:00.000Z''"
    "envToISOString ?e 1704070800000 = ''2024-01-01T01:00:00.000Z''"
    by (simp_all add: exampleEnv_def)
  have res: "compareResults ?table 1704067200000 1704070800000 [''__proto__''] [] = []"
    by (simp add: assign_def)
  have "fst (compare ?e [] (Some ''__proto__'') ?f ?t) =
     ok [(''success'', JBool True), (''words'', JArr [JStr ''__proto__'']),
         (''from'', JStr ''2024-01-01T00:00:00.000Z''),
         (''to'', JStr ''2024-01-01T01:00:00.000Z''),
         (''data'', JObj [])]"
    using compare_fresh [OF refl len up] unfolding words iso res by simp
  with words series show ?thesis
    by (intro conjI)
qed


lemma colon_not_in_toString: "CHR '':'' \<notin> set (toString (Num i))"
proof -
  have "CHR '':'' \<notin> set (showNat n)" for n
    using showNat_digits [of n] by (auto simp: list_all_iff isDigit_def code_def)
  then show ?thesis by auto
qed

lemma toString_inject: "toString (Num a) = toString (Num b) \<Longrightarrow> a = b"
  using parseInt_toString [of a] parseInt_toString [of b] by simp

lemma split_at_colon:
  "CHR '':'' \<notin> set xs \<Longrightarrow> CHR '':'' \<notin> set xs' \<Longrightarrow>
   xs @ CHR '':'' # ys = xs' @ CHR '':'' # ys' \<Longrightarrow> xs = xs' \<and> ys = ys'"
proof (induction xs arbitrary: xs')
  case Nil
  then show ?case by (cases xs') auto
next
  case (Cons x xs)
  then show ?case by (cases xs') auto
qed

lemma topKey_inject:
  assumes "topKey m l = topKey m' l'"
  shows "m = m' \<and> l = l'"
proof -
  from assms have "toString (Num m) @ CHR '':'' # toString (Num l) =
      toString (Num m') @ CHR '':'' # toString (Num l')"
    by (simp add: topKey_def del: toString.simps)
  from split_at_colon [OF colon_not_in_toString colon_not_in_toString this]
  have "toString (Num m) = toString (Num m') \<and> toString (Num l) = toString (Num l')" .
  then show ?thesis
    using toString_inject by blast
qed

lemma topKey_not_searchKey: "topKey m l \<noteq> searchKey e w f t"
  by (simp add: topKey_def searchKey_def del: toString.simps)

lemma topKey_not_compareKey: "topKey m l \<noteq> compareKey e ws f t"
  by (simp add: topKey_def compareKey_def del: toString.simps)

lemma totalOf_row: "totalOf (JObj [(''word'', JStr w), (''total'', JNum t)]) = t"
  by (simp add: totalOf_def field_def)

lemma topQuery_shape: "topShape limit (JArr (topQuery table cutoff limit))"
proof -
  define k :: "string \<times> 64 word \<Rightarrow> int" where "k = (\<lambda>(w, total). - sint total)"
  define groups where
    "groups = groupTotals (filter (\<lambda>r. formatDateForCH cutoff \<le> interval r) table)"
  define row :: "string \<times> 64 word \<Rightarrow> json"
    where "row = (\<lambda>(w, total). JObj [(''word'', JStr w), (''total'', JNum (sint total))])"
  have q: "topQuery table cutoff limit = map row (take (nat limit) (sort_key k groups))"
    by (simp add: topQuery_def k_def groups_def row_def)
  have "sorted (map k (sort_key k groups))"
    by (rule sorted_sort_key)
  then have "sorted (take (nat limit) (map k (sort_key k groups)))"
    by (rule sorted_wrt_take)
  then have "sorted (map k (take (nat limit) (sort_key k groups)))"
    by (simp add: take_map)
  then have "sorted_wrt (\<lambda>x y. k x \<le> k y) (take (nat limit) (sort_key k groups))"
    by (simp add: sorted_map)
  moreover have "(k x \<le> k y) = (totalOf (row y) \<le> totalOf (row x))" for x y
    by (cases x; cases y) (simp add: k_def row_def totalOf_row)
  ultimately have "sorted_wrt (\<lambda>a b. totalOf b \<le> totalOf a)
      (map row (take (nat limit) (sort_key k groups)))"
    by (simp add: sorted_wrt_map)
  moreover have "length (map row (take (nat limit) (sort_key k groups))) \<le> nat limit"
    by simp
  ultimately show ?thesis
    unfolding q by (simp add: topShape_def)
qed

lemma topCached_other_key:
  assumes "topCached c" and "\<And>m l. topKey m l \<noteq> key"
  shows "topCached (cacheSet now c key v ttl)"
  using assms by (auto simp: topCached_def cacheSet_def map_of_mapSet)

lemma topCached_top_key:
  assumes "topCached c" and "topShape limit v"
  shows "topCached (cacheSet now c (topKey minutes limit) v ttl)"
  using assms
  by (auto simp: topCached_def cacheSet_def map_of_mapSet dest: topKey_inject)

lemma topCached_search: "topCached c \<Longrightarrow> topCached (snd (search e c w f t))"
  by (auto simp: search_def Let_def topCached_other_key topKey_not_searchKey
      split: option.splits date.splits store.splits)

lemma topCached_compare: "topCached c \<Longrightarrow> topCached (snd (compare e c ws f t))"
  by (auto simp: compare_def Let_def topCached_other_key topKey_not_compareKey
      split: option.splits date.splits store.splits)

lemma topCached_top: "topCached c \<Longrightarrow> topCached (snd (top_endpoint e c m l))"
  by (auto simp: top_endpoint_def Let_def topCached_top_key topQuery_shape
      split: option.splits store.splits)

lemma topCached_api: "topCached c \<Longrightarrow> topCached (snd (api e c r))"
  by (cases r) (simp_all add: topCached_search topCached_compare topCached_top)

lemma topCached_serve: "topCached c \<Longrightarrow> topCached (serve history c)"
  by (induction history arbitrary: c) (auto simp: topCached_api simp del: api.simps)

lemma topCached_empty: "topCached []"
  by (simp add: topCached_def)

lemma cacheHit_shape:
  assumes "topCached c" and "cacheHit now c (topKey m l) = Some v"
  shows "topShape l v"
proof -
  from assms(2) obtain expires where "map_of c (topKey m l) = Some (v, expires)"
    by (auto simp: cacheHit_def cacheGet_def mapGet_def split: option.splits if_splits)
  with assms(1) show ?thesis
    unfolding topCached_def by blast
qed

lemma top_endpoint_shape:
  assumes "topCached c" and "status (fst (top_endpoint e c m l)) = 200"
  shows "\<exists>v. field ''data'' (body (fst (top_endpoint e c m l))) = Some v \<and>
             topShape (intParam l 20) v"
proof (cases "envCacheDown e")
  case (Some msg)
  with assms(2) show ?thesis
    by (simp add: top_endpoint_def Let_def serverError_def)
next
  case None
  show ?thesis
  proof (cases "cacheHit (envNow e) c (topKey (intParam m 5) (intParam l 20))")
    case (Some v)
    from cacheHit_shape [OF assms(1) Some] Some None show ?thesis
      by (simp add: top_endpoint_def Let_def ok_def field_def)
  next
    case miss: None
    show ?thesis
    proof (cases "envStore e")
      case (StoreDown msg)
      with assms(2) None miss show ?thesis
        by (simp add: top_endpoint_def Let_def serverError_def)
    next
      case (StoreUp table)
      with None miss topQuery_shape show ?thesis
        by (simp add: top_endpoint_def Let_def ok_def field_def)
    qed
  qed
qed

lemma top_endpoint_answers:
  assumes "envCacheDown e = None" and "envStore e = StoreUp table"
  shows "status (fst (top_endpoint e c m l)) = 200"
  using assms by (simp add: top_endpoint_def Let_def ok_def split: option.splits)

text \<open>
  Claim C6. After any history of requests to the service, the top endpoint called
  with its defaults, 5 minutes and limit 20, answers, when it answers with success, with
  at most 20 entries whose totals do not increase along the list, be they fresh from
  the store or served from the cache; with any limit, a successful answer has at most
  that many. With its defaults it answers with success whenever the cache and the store
  are up.
\<close>

theorem top_at_most_limit_descending:
  "intParam None 5 = 5 \<and> intParam None 20 = 20 \<and>
   (status (fst (top_endpoint e (serve history []) None None)) = 200 \<longrightarrow>
      (\<exists>rows. field ''data'' (body (fst (top_endpoint e (serve history []) None None))) =
           Some (JArr rows) \<and>
         length rows \<le> 20 \<and> sorted_wrt (\<lambda>a b. totalOf b \<le> totalOf a) rows)) \<and>
   (status (fst (top_endpoint e (serve history []) m l)) = 200 \<longrightarrow>
      (\<exists>rows. field ''data'' (body (fst (top_endpoint e (serve history []) m l))) =
           Some (JArr rows) \<and>
         length rows \<le> nat (intParam l 20) \<and>
         sorted_wrt (\<lambda>a b. totalOf b \<le> totalOf a) rows)) \<and>
   (envCacheDown e = None \<and> envStore e = StoreUp table \<longrightarrow>
      status (fst (top_endpoint e (serve history []) None None)) = 200)"
proof -
  have inv: "topCached (serve history [])"
    by (rule topCached_serve [OF topCached_empty])
  have d: "intParam None 5 = 5" "intParam None 20 = 20"
    by (simp_all add: intParam_def)
  have gen: "status (fst (top_endpoint e (serve history []) m l)) = 200 \<longrightarrow>
      (\<exists>rows. field ''data'' (body (fst (top_endpoint e (serve history []) m l))) =
           Some (JArr rows) \<and>
         length rows \<le> nat (intParam l 20) \<and>
         sorted_wrt (\<lambda>a b. totalOf b \<le> totalOf a) rows)" for m l
  proof
    assume "status (fst (top_endpoint e (serve history []) m l)) = 200"
    from top_endpoint_shape [OF inv this] obtain v
      where v: "field ''data'' (body (fst (top_endpoint e (serve history []) m l))) = Some v"
        and sh: "topShape (intParam l 20) v"
      by blast
    from sh obtain rows where "v = JArr rows" "length rows \<le> nat (intParam l 20)"
      "sorted_wrt (\<lambda>a b. totalOf b \<le> totalOf a) rows"
      by (cases v) (auto simp: topShape_def)
    with v show "\<exists>rows. field ''data'' (body (fst (top_endpoint e (serve history []) m l))) =
           Some (JArr rows) \<and>
         length rows \<le> nat (intParam l 20) \<and>
         sorted_wrt (\<lambda>a b. totalOf b \<le> totalOf a) rows"
      by blast
  qed
  have dflt: "status (fst (top_endpoint e (serve history []) None None)) = 200 \<longrightarrow>
      (\<exists>rows. field ''data'' (body (fst (top_endpoint e (serve history []) None None))) =
           Some (JArr rows) \<and>
         length rows \<le> 20 \<and> sorted_wrt (\<lambda>a b. totalOf b \<le> totalOf a) rows)"
    using gen [of None None] d by simp
  have up: "envCacheDown e = None \<and> envStore e = StoreUp table \<longrightarrow>
      status (fst (top_endpoint e (serve history []) None None)) = 200"
    using top_endpoint_answers by blast
  from d dflt gen [of m l] up show ?thesis
    by (intro conjI)
qed


theorem top_at_most_limit_descending_witness:
  "status (fst (top_endpoint exampleEnv (serve [(exampleEnv, Top None None)] []) None None)) = 200 \<and>
   (\<exists>rows. field ''data''
        (body (fst (top_endpoint exampleEnv (serve [(exampleEnv, Top None None)] []) None None))) =
        Some (JArr rows) \<and>
      length rows \<le> 20 \<and> sorted_wrt (\<lambda>a b. totalOf b \<le> totalOf a) rows) \<and>
   body (fst (top_endpoint exampleEnv [] None None)) =
     JObj [(''success'', JBool True), (''minutes'', JNum 5), (''limit'', JNum 20),
           (''data'', JArr [JObj [(''word'', JStr ''cat''), (''total'', JNum 9)],
                            JObj [(''word'', JStr ''dog''), (''total'', JNum 7)]])]"
proof -
  note inst = top_at_most_limit_descending
    [of exampleEnv "[(exampleEnv, Top None None)]" None None exampleTable]
  have up: "envCacheDown exampleEnv = None \<and> envStore exampleEnv = StoreUp exampleTable"
    by (simp add: exampleEnv_def)
  from inst up
  have st: "status (fst (top_endpoint exampleEnv (serve [(exampleEnv, Top None None)] []) None None)) = 200"
    by blast
  with inst
  have rows: "\<exists>rows. field ''data''
        (body (fst (top_endpoint exampleEnv (serve [(exampleEnv, Top None None)] []) None None))) =
        Some (JArr rows) \<and>
      length rows \<le> 20 \<and> sorted_wrt (\<lambda>a b. totalOf b \<le> totalOf a) rows"
    by blast
  have fresh: "body (fst (top_endpoint exampleEnv [] None None)) =
     JObj [(''success'', JBool True), (''minutes'', JNum 5), (''limit'', JNum 20),
           (''data'', JArr [JObj [(''word'', JStr ''cat''), (''total'', JNum 9)],
                            JObj [(''word'', JStr ''dog''), (''total'', JNum 7)]])]"
    by (simp add: top_endpoint_def intParam_def exampleEnv_def cacheHit_def cacheGet_def
        mapGet_def topQuery_def groupTotals_def exampleTable_def formatDateForCH_def ok_def Let_def)
  from st rows fresh show ?thesis
    by (intro conjI)
qed


end
